theory Spec2Isabelle
  imports Complex_Main
begin

section \<open>Numbers\<close>

text \<open>
  The particle system of \<^verbatim>\<open>src/renderer/canvas/ParticleSystem.ts\<close> computes with
  JavaScript numbers, which are IEEE doubles. A number is modelled as a real or one of
  the three special values of IEEE arithmetic. What the operators do with the special
  values is written out, so that a division by zero or the square root of a negative
  number is a value of the model as it is a value of the program.

  The two divisions that make the release schedule, \<open>totalMs / this._totalGrains\<close> in
  \<open>init\<close> and \<open>timerElapsedMs / this._releaseInterval\<close> in \<open>update\<close>, are rounded as the
  program rounds them: to the nearest double, ties to the even significand, with gradual
  underflow and, for the quotient of \<open>update\<close>, overflow to infinity (\<open>nearest\<close>,
  \<open>js_round\<close> and \<open>js_div\<close> below). The number of released grains depends on these
  roundings: for a duration of 7 ms and 200 grains the stored interval is the double
  above \<open>0.035\<close>, and \<open>7 / 0.035\<close> is \<open>199.99999999999997\<close> in the program. All other
  arithmetic (the geometry, the physics of a grain, the quotient \<open>totalMs / 500\<close> under
  the floor of \<open>init\<close>) is exact: there a finite result is the exact real. The sign of
  zero is not modelled: a zero divisor counts as \<open>+0\<close>.

  The arguments of the public methods (a duration, a frame time, an elapsed time, the
  landmarks and walls of the geometry) are finite numbers and have type \<open>real\<close>; what
  the program computes and stores in a grain has type \<open>jsnum\<close>. The values of
  \<open>Math.random()\<close> are read from a sequence \<open>rnd\<close> of reals, one element per call of
  \<open>Math.random()\<close>; every call of a public method takes a sequence of its own.
\<close>

datatype jsnum = Fin real | PosInf | NegInf | NaN

instantiation jsnum :: "{uminus, plus, minus, times, inverse, ord}"
begin

fun uminus_jsnum :: "jsnum \<Rightarrow> jsnum" where
  "- Fin a = Fin (- a)"
| "- PosInf = NegInf"
| "- NegInf = PosInf"
| "- NaN = NaN"

fun plus_jsnum :: "jsnum \<Rightarrow> jsnum \<Rightarrow> jsnum" where
  "Fin a + Fin b = Fin (a + b)"
| "NaN + _ = NaN"
| "_ + NaN = NaN"
| "PosInf + NegInf = NaN"
| "NegInf + PosInf = NaN"
| "PosInf + _ = PosInf"
| "_ + PosInf = PosInf"
| "NegInf + _ = NegInf"
| "_ + NegInf = NegInf"

definition "a - b = a + - (b :: jsnum)"

fun times_jsnum :: "jsnum \<Rightarrow> jsnum \<Rightarrow> jsnum" where
  "Fin a * Fin b = Fin (a * b)"
| "NaN * _ = NaN"
| "_ * NaN = NaN"
| "PosInf * Fin b = (if b = 0 then NaN else if 0 < b then PosInf else NegInf)"
| "NegInf * Fin b = (if b = 0 then NaN else if 0 < b then NegInf else PosInf)"
| "Fin a * PosInf = (if a = 0 then NaN else if 0 < a then PosInf else NegInf)"
| "Fin a * NegInf = (if a = 0 then NaN else if 0 < a then NegInf else PosInf)"
| "PosInf * PosInf = PosInf"
| "PosInf * NegInf = NegInf"
| "NegInf * PosInf = NegInf"
| "NegInf * NegInf = PosInf"

fun divide_jsnum :: "jsnum \<Rightarrow> jsnum \<Rightarrow> jsnum" where
  "Fin a div Fin b =
     (if b = 0 then (if a = 0 then NaN else if 0 < a then PosInf else NegInf)
      else Fin (a / b))"
| "NaN div _ = NaN"
| "_ div NaN = NaN"
| "Fin a div PosInf = Fin 0"
| "Fin a div NegInf = Fin 0"
| "PosInf div Fin b = (if 0 \<le> b then PosInf else NegInf)"
| "NegInf div Fin b = (if 0 \<le> b then NegInf else PosInf)"
| "PosInf div _ = NaN"
| "NegInf div _ = NaN"

definition "inverse a = Fin 1 div (a :: jsnum)"

fun less_jsnum :: "jsnum \<Rightarrow> jsnum \<Rightarrow> bool" where
  "Fin a < Fin b = (a < b)"
| "NegInf < Fin b = True"
| "NegInf < PosInf = True"
| "Fin a < PosInf = True"
| "(_ :: jsnum) < _ = False"

definition "a \<le> b \<longleftrightarrow> a < b \<or> (a = b \<and> a \<noteq> NaN)" for a b :: jsnum

instance ..

end

text \<open>\<open>Math.min\<close>, \<open>Math.max\<close>, \<open>Math.floor\<close> and \<open>Math.sqrt\<close>.\<close>

definition Math_min :: "jsnum \<Rightarrow> jsnum \<Rightarrow> jsnum" where
  "Math_min a b = (if a = NaN \<or> b = NaN then NaN else if b < a then b else a)"

definition Math_max :: "jsnum \<Rightarrow> jsnum \<Rightarrow> jsnum" where
  "Math_max a b = (if a = NaN \<or> b = NaN then NaN else if a < b then b else a)"

fun Math_floor :: "jsnum \<Rightarrow> jsnum" where
  "Math_floor (Fin a) = Fin (of_int \<lfloor>a\<rfloor>)"
| "Math_floor v = v"

fun Math_sqrt :: "jsnum \<Rightarrow> jsnum" where
  "Math_sqrt (Fin a) = (if a < 0 then NaN else Fin (sqrt a))"
| "Math_sqrt PosInf = PosInf"
| "Math_sqrt v = NaN"

text \<open>
  Rounding to a double. A double other than zero is \<open>m * 2 ^ (e - 52)\<close> with an integer
  \<open>m\<close> of at most 53 bits and an exponent \<open>e\<close> from \<open>-1022\<close> to \<open>1023\<close>. The result of
  an operation is the double nearest to the exact result, and of two nearest doubles the
  one with the even \<open>m\<close>; below \<open>2 ^ -1022\<close> the spacing of the doubles stays
  \<open>2 ^ -1074\<close>, and a result of magnitude \<open>2 ^ 1024\<close> or more after rounding is an
  infinity.
\<close>

definition round_half_even :: "real \<Rightarrow> int" where
  "round_half_even y =
     (let f = \<lfloor>y\<rfloor> in
      if y - of_int f < 1 / 2 then f
      else if 1 / 2 < y - of_int f then f + 1
      else if even f then f else f + 1)"

definition expo :: "real \<Rightarrow> int" where
  "expo x = max (- 1022) \<lfloor>log 2 \<bar>x\<bar>\<rfloor>"

definition nearest :: "real \<Rightarrow> real" where
  "nearest x =
     (if x = 0 then 0
      else 2 powi (expo x - 52) * of_int (round_half_even (x / 2 powi (expo x - 52))))"

definition js_round :: "real \<Rightarrow> jsnum" where
  "js_round x =
     (let d = nearest x in
      if 2 ^ 1024 \<le> d then PosInf else if d \<le> - (2 ^ 1024) then NegInf else Fin d)"

text \<open>The division of two numbers as the program computes it.\<close>

definition js_div :: "jsnum \<Rightarrow> jsnum \<Rightarrow> jsnum" where
  "js_div a b = (case a / b of Fin q \<Rightarrow> js_round q | v \<Rightarrow> v)"

type_synonym rng = "nat \<Rightarrow> real"

section \<open>Data model\<close>

record grain =
  pos_x :: jsnum
  pos_y :: jsnum
  vx :: jsnum
  vy :: jsnum
  radius :: jsnum
  color :: string
  colorOffset :: jsnum
  settled :: bool
  active :: bool

record line_segment =
  x1 :: real
  y1 :: real
  x2 :: real
  y2 :: real

record hourglass_geometry =
  walls :: "line_segment list"
  neckLeft :: real
  neckRight :: real
  neckTopY :: real
  neckBottomY :: real
  bottomFloorY :: real
  topCeilingY :: real

definition GRAVITY :: real where "GRAVITY = 600"
definition DAMPING :: real where "DAMPING = 0.3"
definition FRICTION :: real where "FRICTION = 0.92"
definition SETTLE_THRESHOLD :: real where "SETTLE_THRESHOLD = 8"
definition GRAIN_RADIUS :: real where "GRAIN_RADIUS = 2.5"
definition CELL_SIZE :: real where "CELL_SIZE = GRAIN_RADIUS * 4"

text \<open>
  The fields of the class. The counters hold natural numbers: they start at zero,
  \<open>_releasedCount\<close> is only incremented, and \<open>_totalGrains\<close> is the clamped floor of a
  finite number. The spatial grid is rebuilt by every \<open>update\<close> before it is read, so it
  is a value of \<open>update\<close> and not a field of the state.
\<close>

record particle_system =
  grains :: "grain list"
  geometry :: "hourglass_geometry option"
  totalGrains :: nat
  releasedCount :: nat
  releaseInterval :: real
  lastReleaseTime :: real
  elapsedMs :: real
  totalMs :: real

definition new_system :: particle_system where
  "new_system = \<lparr>grains = [], geometry = None, totalGrains = 0, releasedCount = 0,
     releaseInterval = 0, lastReleaseTime = 0, elapsedMs = 0, totalMs = 0\<rparr>"

definition setGeometry :: "hourglass_geometry \<Rightarrow> particle_system \<Rightarrow> particle_system" where
  "setGeometry geo s = s\<lparr>geometry := Some geo\<rparr>"

section \<open>Width of the hourglass at a height\<close>

definition getWidthAtY :: "particle_system \<Rightarrow> real \<Rightarrow> jsnum" where
  "getWidthAtY s y =
     (case geometry s of
        None \<Rightarrow> Fin 0
      | Some geo \<Rightarrow>
          let neckWidth = neckRight geo - neckLeft geo in
          if y \<ge> neckTopY geo \<and> y \<le> neckBottomY geo then Fin neckWidth
          else if y < neckTopY geo then
            let t = Fin (neckTopY geo - y) / Fin (neckTopY geo - topCeilingY geo);
                maxWidth = (neckRight geo - neckLeft geo) + 120
            in Fin neckWidth + Fin (maxWidth - neckWidth) * Math_sqrt (Math_min (Fin 1) t)
          else
            let t = Fin (y - neckBottomY geo) / Fin (bottomFloorY geo - neckBottomY geo);
                maxWidth = (neckRight geo - neckLeft geo) + 120
            in Fin neckWidth + Fin (maxWidth - neckWidth) * Math_sqrt (Math_min (Fin 1) t))"

text \<open>
  The easing curve of the renderer's outline (\<^verbatim>\<open>HourglassRenderer.ts\<close>,
  \<^verbatim>\<open>curve = 0.5 - 0.5 * Math.cos(t * Math.PI)\<close>), the cosine ease.
\<close>

definition cosine_ease :: "real \<Rightarrow> real" where
  "cosine_ease t = 0.5 - 0.5 * cos (t * pi)"

section \<open>Initialisation and reset\<close>

text \<open>
  The grain created by iteration \<open>i\<close> of the loop of \<open>init\<close>. The object literal calls
  \<open>Math.random()\<close> four times, for \<open>x\<close>, \<open>y\<close>, \<open>radius\<close> and \<open>colorOffset\<close> in this order.
\<close>

definition init_grain :: "particle_system \<Rightarrow> hourglass_geometry \<Rightarrow> rng \<Rightarrow> nat \<Rightarrow> grain" where
  "init_grain s geo rnd i =
     (let centerX = (neckLeft geo + neckRight geo) / 2;
          topHeight = neckTopY geo - topCeilingY geo;
          row = i div 20;
          col = i mod 20;
          rowY = neckTopY geo - 12 - real row * (GRAIN_RADIUS * 2.2);
          rowWidth = getWidthAtY s rowY * Fin 0.8;
          rowStartX = Fin centerX - rowWidth / Fin 2;
          grainX = rowStartX + Fin (real col / 19) * rowWidth
      in \<lparr>pos_x = grainX + Fin ((rnd (4 * i) - 0.5) * 2),
          pos_y = Fin (min rowY (topCeilingY geo + topHeight * 0.9) + (rnd (4 * i + 1) - 0.5) * 2),
          vx = Fin 0,
          vy = Fin 0,
          radius = Fin (GRAIN_RADIUS + (rnd (4 * i + 2) - 0.5) * 0.8),
          color = [],
          colorOffset = Fin ((rnd (4 * i + 3) - 0.5) * 2),
          settled = True,
          active = False\<rparr>)"

text \<open>
  \<open>init\<close>. The release interval \<open>totalMs / this._totalGrains\<close> is stored as a double: the
  quotient is rounded to the nearest one. Its magnitude is at most that of the duration,
  which is a finite double, so that it does not overflow.
\<close>

definition init :: "real \<Rightarrow> rng \<Rightarrow> particle_system \<Rightarrow> particle_system" where
  "init ms rnd s =
     (let s1 = s\<lparr>grains := [], releasedCount := 0, lastReleaseTime := 0, elapsedMs := 0\<rparr>
      in case geometry s1 of
           None \<Rightarrow> s1
         | Some geo \<Rightarrow>
             let total = nat (min 400 (max 200 \<lfloor>ms / 500\<rfloor>));
                 s2 = s1\<lparr>totalMs := ms, totalGrains := total,
                        releaseInterval := nearest (ms / real total)\<rparr>
             in s2\<lparr>grains := map (init_grain s2 geo rnd) [0..<total]\<rparr>)"

definition reset :: "particle_system \<Rightarrow> particle_system" where
  "reset s = s\<lparr>grains := [], releasedCount := 0, lastReleaseTime := 0, elapsedMs := 0,
     totalGrains := 0\<rparr>"

section \<open>Releasing grains\<close>

text \<open>
  The scan of \<open>_releaseNextGrain\<close> for the inactive grain with the greatest \<open>y\<close>:
  \<open>i\<close> is the index of the head of the list, \<open>best\<close> the index of the grain held so far
  and \<open>bestY\<close> its \<open>y\<close> (\<open>-Infinity\<close> at the start).
\<close>

fun best_scan :: "grain list \<Rightarrow> nat \<Rightarrow> nat option \<Rightarrow> jsnum \<Rightarrow> nat option" where
  "best_scan [] i best bestY = best"
| "best_scan (g # gs) i best bestY =
     (if \<not> active g \<and> pos_y g > bestY then best_scan gs (Suc i) (Some i) (pos_y g)
      else best_scan gs (Suc i) best bestY)"

text \<open>
  \<open>_releaseNextGrain\<close>, with the random sequence read from position \<open>k\<close>; the result
  holds the position after the calls made. The three calls of \<open>Math.random()\<close> (for
  \<open>x\<close>, \<open>vx\<close>, \<open>vy\<close>) happen only when a grain was found.
\<close>

definition releaseNextGrain :: "rng \<Rightarrow> nat \<Rightarrow> particle_system \<Rightarrow> particle_system \<times> nat" where
  "releaseNextGrain rnd k s =
     (case geometry s of
        None \<Rightarrow> (s, k)
      | Some geo \<Rightarrow>
         (case best_scan (grains s) 0 None NegInf of
            None \<Rightarrow> (s\<lparr>releasedCount := releasedCount s + 1\<rparr>, k)
          | Some i \<Rightarrow>
              let best = grains s ! i;
                  centerX = (neckLeft geo + neckRight geo) / 2;
                  best' = best\<lparr>
                    pos_x := Fin centerX + Fin (rnd k - 0.5) *
                               (Fin (neckRight geo - neckLeft geo) - radius best * Fin 2),
                    pos_y := Fin (neckTopY geo + 2),
                    vx := Fin ((rnd (k + 1) - 0.5) * 10),
                    vy := Fin (20 + rnd (k + 2) * 30),
                    active := True,
                    settled := False\<rparr>
              in (s\<lparr>grains := (grains s)[i := best'], releasedCount := releasedCount s + 1\<rparr>,
                  k + 3)))"

text \<open>
  The loop \<^verbatim>\<open>while (this._releasedCount < targetReleased) this._releaseNextGrain()\<close>.
  Taken alone it need not end (an infinite target, or no geometry, in which case
  \<open>_releaseNextGrain\<close> returns before it counts), so its result is optional and \<open>None\<close>
  stands for a loop that does not return.
\<close>

partial_function (option) release_loop ::
  "jsnum \<Rightarrow> rng \<Rightarrow> nat \<Rightarrow> particle_system \<Rightarrow> particle_system option" where
  "release_loop targetReleased rnd k s =
     (if Fin (real (releasedCount s)) < targetReleased
      then release_loop targetReleased rnd (snd (releaseNextGrain rnd k s))
             (fst (releaseNextGrain rnd k s))
      else Some s)"

section \<open>Spatial grid\<close>

text \<open>
  The key of a cell is the string \<^verbatim>\<open>`${Math.floor(g.x / CELL_SIZE)},${Math.floor(g.y / CELL_SIZE)}`\<close>;
  two keys are the same string exactly when both numbers are the same, so a key is the
  pair of numbers. A cell holds references to grains; here it holds their indices in
  \<open>_grains\<close>, in the order they were pushed.
\<close>

type_synonym cell_key = "jsnum \<times> jsnum"
type_synonym spatial_grid = "cell_key \<Rightarrow> nat list option"

definition cell_of :: "grain \<Rightarrow> cell_key" where
  "cell_of g = (Math_floor (pos_x g / Fin CELL_SIZE), Math_floor (pos_y g / Fin CELL_SIZE))"

fun grid_scan :: "grain list \<Rightarrow> nat \<Rightarrow> spatial_grid \<Rightarrow> spatial_grid" where
  "grid_scan [] i grid = grid"
| "grid_scan (g # gs) i grid =
     (if \<not> active g then grid_scan gs (Suc i) grid
      else
        let key = cell_of g;
            grid1 = (if grid key = None then grid(key \<mapsto> []) else grid)
        in grid_scan gs (Suc i) (grid1(key \<mapsto> the (grid1 key) @ [i])))"

definition buildSpatialGrid :: "grain list \<Rightarrow> spatial_grid" where
  "buildSpatialGrid gs = grid_scan gs 0 Map.empty"

definition getNearby :: "spatial_grid \<Rightarrow> grain list \<Rightarrow> nat \<Rightarrow> nat list" where
  "getNearby grid gs i =
     (let cx = Math_floor (pos_x (gs ! i) / Fin CELL_SIZE);
          cy = Math_floor (pos_y (gs ! i) / Fin CELL_SIZE)
      in concat (map (\<lambda>dx. concat (map (\<lambda>dy.
           (case grid (cx + Fin dx, cy + Fin dy) of
              None \<Rightarrow> []
            | Some cell \<Rightarrow> filter (\<lambda>other. other \<noteq> i) cell))
           [- 1, 0, 1])) [- 1, 0, 1]))"

section \<open>Physics step\<close>

definition collideWall :: "line_segment \<Rightarrow> grain \<Rightarrow> grain" where
  "collideWall wall g =
     (let dx = x2 wall - x1 wall;
          dy = y2 wall - y1 wall;
          len2 = dx * dx + dy * dy
      in if len2 = 0 then g
         else
           let t0 = ((pos_x g - Fin (x1 wall)) * Fin dx + (pos_y g - Fin (y1 wall)) * Fin dy)
                      / Fin len2;
               t = Math_max (Fin 0) (Math_min (Fin 1) t0);
               closestX = Fin (x1 wall) + t * Fin dx;
               closestY = Fin (y1 wall) + t * Fin dy;
               distX = pos_x g - closestX;
               distY = pos_y g - closestY;
               dist = Math_sqrt (distX * distX + distY * distY)
           in if dist < radius g then
                let nx = (if dist > Fin 0 then distX / dist else Fin 0);
                    ny = (if dist > Fin 0 then distY / dist else Fin (- 1));
                    g1 = g\<lparr>pos_x := closestX + nx * radius g,
                           pos_y := closestY + ny * radius g\<rparr>;
                    dot = vx g1 * nx + vy g1 * ny
                in if dot < Fin 0
                   then g1\<lparr>vx := vx g1 - Fin 2 * dot * nx * Fin DAMPING,
                           vy := vy g1 - Fin 2 * dot * ny * Fin DAMPING\<rparr>
                   else g1
              else g)"

text \<open>Gravity, friction and the Euler step at the head of \<open>_updateGrain\<close>.\<close>

definition integrate :: "real \<Rightarrow> grain \<Rightarrow> grain" where
  "integrate dt g =
     (let g1 = g\<lparr>vy := vy g + Fin (GRAVITY * dt)\<rparr>;
          g2 = g1\<lparr>vx := vx g1 * Fin FRICTION\<rparr>;
          g3 = g2\<lparr>pos_x := pos_x g2 + vx g2 * Fin dt\<rparr>
      in g3\<lparr>pos_y := pos_y g3 + vy g3 * Fin dt\<rparr>)"

definition collideFloor :: "hourglass_geometry \<Rightarrow> grain \<Rightarrow> grain" where
  "collideFloor geo g =
     (if pos_y g + radius g > Fin (bottomFloorY geo)
      then g\<lparr>pos_y := Fin (bottomFloorY geo) - radius g,
             vy := vy g * Fin (- DAMPING),
             vx := vx g * Fin FRICTION\<rparr>
      else g)"

definition collideCeiling :: "hourglass_geometry \<Rightarrow> grain \<Rightarrow> grain" where
  "collideCeiling geo g =
     (if pos_y g - radius g < Fin (topCeilingY geo)
      then g\<lparr>pos_y := Fin (topCeilingY geo) + radius g, vy := vy g * Fin (- DAMPING)\<rparr>
      else g)"

text \<open>
  One iteration of the grain-to-grain loop: the grain at index \<open>i\<close> against its
  neighbour at index \<open>j\<close>. Both are objects of the array, so the writes go to the list.
\<close>

definition collideGrain :: "nat \<Rightarrow> nat \<Rightarrow> grain list \<Rightarrow> grain list" where
  "collideGrain i j gs =
     (let dx = pos_x (gs ! j) - pos_x (gs ! i);
          dy = pos_y (gs ! j) - pos_y (gs ! i);
          dist = Math_sqrt (dx * dx + dy * dy);
          minDist = radius (gs ! i) + radius (gs ! j)
      in if dist < minDist \<and> dist > Fin 0.01 then
           let overlap = minDist - dist;
               nx = dx / dist;
               ny = dy / dist;
               pushFactor = overlap * Fin 0.5;
               gs1 = (if \<not> settled (gs ! i)
                      then gs[i := (gs ! i)\<lparr>pos_x := pos_x (gs ! i) - nx * pushFactor,
                                              pos_y := pos_y (gs ! i) - ny * pushFactor\<rparr>]
                      else gs);
               gs2 = (if \<not> settled (gs1 ! j)
                      then gs1[j := (gs1 ! j)\<lparr>pos_x := pos_x (gs1 ! j) + nx * pushFactor,
                                                pos_y := pos_y (gs1 ! j) + ny * pushFactor\<rparr>]
                      else gs1)
           in if \<not> settled (gs2 ! i)
              then gs2[i := (gs2 ! i)\<lparr>vx := vx (gs2 ! i) - nx * overlap * Fin 2,
                                        vy := vy (gs2 ! i) - ny * overlap * Fin 2\<rparr>]
              else gs2
         else gs)"

text \<open>The settling check at the end of \<open>_updateGrain\<close>.\<close>

definition settle :: "hourglass_geometry \<Rightarrow> nat list \<Rightarrow> nat \<Rightarrow> grain list \<Rightarrow> grain list" where
  "settle geo nearby i gs =
     (let g = gs ! i in
      if pos_y g > Fin (neckBottomY geo) then
        let speed = Math_sqrt (vx g * vx g + vy g * vy g) in
        if speed < Fin SETTLE_THRESHOLD then
          let onFloor = (pos_y g + radius g \<ge> Fin (bottomFloorY geo - 1));
              onGrain = list_ex (\<lambda>j.
                settled (gs ! j) \<and> pos_y (gs ! j) > pos_y g \<and>
                (let dy = pos_y (gs ! j) - pos_y g;
                     dx = pos_x (gs ! j) - pos_x g
                 in Math_sqrt (dx * dx + dy * dy) < radius g + radius (gs ! j) + Fin 1)) nearby
          in if onFloor \<or> onGrain
             then gs[i := g\<lparr>settled := True, vx := Fin 0, vy := Fin 0\<rparr>]
             else gs
        else gs
      else gs)"

definition updateGrain ::
  "hourglass_geometry \<Rightarrow> spatial_grid \<Rightarrow> real \<Rightarrow> nat \<Rightarrow> grain list \<Rightarrow> grain list" where
  "updateGrain geo grid dt i gs =
     (let g1 = integrate dt (gs ! i);
          g2 = fold collideWall (walls geo) g1;
          g3 = collideFloor geo g2;
          g4 = collideCeiling geo g3;
          gs1 = gs[i := g4];
          nearby = getNearby grid gs1 i;
          gs2 = fold (collideGrain i) nearby gs1
      in settle geo nearby i gs2)"

text \<open>The loop of \<open>update\<close> over all grains.\<close>

definition updateGrains ::
  "hourglass_geometry \<Rightarrow> spatial_grid \<Rightarrow> real \<Rightarrow> grain list \<Rightarrow> grain list" where
  "updateGrains geo grid dt gs =
     fold (\<lambda>i gs'. if \<not> active (gs' ! i) \<or> settled (gs' ! i) then gs'
                    else updateGrain geo grid dt i gs')
       [0..<length gs] gs"

section \<open>Update and explosion\<close>

text \<open>
  The target of \<open>update\<close>,
  \<^verbatim>\<open>Math.min(this._totalGrains, Math.floor(timerElapsedMs / this._releaseInterval))\<close>,
  with the quotient rounded to a double.
\<close>

definition targetReleased :: "particle_system \<Rightarrow> real \<Rightarrow> jsnum" where
  "targetReleased s timerElapsedMs =
     Math_min (Fin (real (totalGrains s)))
       (Math_floor (js_div (Fin timerElapsedMs) (Fin (releaseInterval s))))"

definition update :: "real \<Rightarrow> real \<Rightarrow> rng \<Rightarrow> particle_system \<Rightarrow> particle_system option" where
  "update dt timerElapsedMs rnd s =
     (case geometry s of
        None \<Rightarrow> Some s
      | Some geo \<Rightarrow>
          if grains s = [] then Some s
          else
            let s1 = s\<lparr>elapsedMs := timerElapsedMs\<rparr> in
            (case release_loop (targetReleased s1 timerElapsedMs) rnd 0 s1 of
               None \<Rightarrow> None
             | Some s2 \<Rightarrow>
                 Some (s2\<lparr>grains :=
                   updateGrains geo (buildSpatialGrid (grains s2)) dt (grains s2)\<rparr>)))"

text \<open>
  The loop of \<open>explode\<close>; every grain it kicks takes two values of \<open>Math.random()\<close>, for
  \<open>vy\<close> and then \<open>vx\<close>.
\<close>

fun explode_grains :: "rng \<Rightarrow> nat \<Rightarrow> grain list \<Rightarrow> grain list" where
  "explode_grains rnd k [] = []"
| "explode_grains rnd k (g # gs) =
     (if settled g \<and> active g
      then g\<lparr>settled := False,
             vy := Fin (- (200 + rnd k * 300)),
             vx := Fin ((rnd (k + 1) - 0.5) * 200)\<rparr> # explode_grains rnd (k + 2) gs
      else g # explode_grains rnd k gs)"

definition explode :: "rng \<Rightarrow> particle_system \<Rightarrow> particle_system" where
  "explode rnd s = s\<lparr>grains := explode_grains rnd 0 (grains s)\<rparr>"

section \<open>Sequences of calls\<close>

datatype call =
    SetGeometry hourglass_geometry
  | Init real rng
  | Update real real rng
  | Explode rng
  | Reset

fun do_call :: "call \<Rightarrow> particle_system \<Rightarrow> particle_system option" where
  "do_call (SetGeometry geo) s = Some (setGeometry geo s)"
| "do_call (Init ms rnd) s = Some (init ms rnd s)"
| "do_call (Update dt e rnd) s = update dt e rnd s"
| "do_call (Explode rnd) s = Some (explode rnd s)"
| "do_call Reset s = Some (reset s)"

fun run :: "call list \<Rightarrow> particle_system \<Rightarrow> particle_system option" where
  "run [] s = Some s"
| "run (c # cs) s = (case do_call c s of None \<Rightarrow> None | Some s' \<Rightarrow> run cs s')"

text \<open>The calls that run the physics: \<open>update\<close> and \<open>explode\<close>.\<close>

fun physics_call :: "call \<Rightarrow> bool" where
  "physics_call (Update dt e rnd) = True"
| "physics_call (Explode rnd) = True"
| "physics_call c = False"

section \<open>Invariants of the state\<close>

text \<open>The grain that \<open>_releaseNextGrain\<close> writes in place of the grain it found.\<close>

definition released_grain :: "hourglass_geometry \<Rightarrow> rng \<Rightarrow> nat \<Rightarrow> grain \<Rightarrow> grain" where
  "released_grain geo rnd k best =
     best\<lparr>pos_x := Fin ((neckLeft geo + neckRight geo) / 2) + Fin (rnd k - 0.5) *
                      (Fin (neckRight geo - neckLeft geo) - radius best * Fin 2),
          pos_y := Fin (neckTopY geo + 2),
          vx := Fin ((rnd (k + 1) - 0.5) * 10),
          vy := Fin (20 + rnd (k + 2) * 30),
          active := True,
          settled := False\<rparr>"

text \<open>The grain that \<open>explode\<close> writes in place of an active settled grain.\<close>

definition kicked :: "rng \<Rightarrow> nat \<Rightarrow> grain \<Rightarrow> grain" where
  "kicked rnd m g =
     g\<lparr>settled := False, vy := Fin (- (200 + rnd m * 300)), vx := Fin ((rnd (m + 1) - 0.5) * 200)\<rparr>"

text \<open>
  The counters agree with the grains: there are \<open>_totalGrains\<close> grains, \<open>_releasedCount\<close> of
  them are active, and the scan of \<open>_releaseNextGrain\<close> can find every inactive grain
  (its \<open>y\<close> is greater than \<open>-Infinity\<close>).
\<close>

definition consistent :: "particle_system \<Rightarrow> bool" where
  "consistent s \<longleftrightarrow>
     length (grains s) = totalGrains s \<and>
     length (filter active (grains s)) = releasedCount s \<and>
     list_all (\<lambda>g. active g \<or> NegInf < pos_y g) (grains s)"

text \<open>
  What the physics step leaves alone: the flags \<open>active\<close>, the colour offsets, and every
  inactive grain as a whole.
\<close>

definition physics_frame :: "grain list \<Rightarrow> grain list \<Rightarrow> bool" where
  "physics_frame gs gs' \<longleftrightarrow>
     map active gs' = map active gs \<and> map colorOffset gs' = map colorOffset gs \<and>
     (\<forall>k < length gs. \<not> active (gs ! k) \<longrightarrow> gs' ! k = gs ! k)"

text \<open>The indices held by the cells of a grid.\<close>

definition grid_indices :: "spatial_grid \<Rightarrow> nat set" where
  "grid_indices grid = {j. \<exists>key cell. grid key = Some cell \<and> j \<in> set cell}"

text \<open>
  What holds of every state that calls of the particle system reach: the counters agree
  with the grains, there are no grains before the geometry is set, and where there are
  grains the release interval and the number of grains are those of the last \<open>init\<close>.
\<close>

definition wellformed :: "particle_system \<Rightarrow> bool" where
  "wellformed s \<longleftrightarrow>
     consistent s \<and> (geometry s = None \<longrightarrow> grains s = []) \<and>
     (grains s \<noteq> [] \<longrightarrow>
        releaseInterval s = nearest (totalMs s / real (totalGrains s)) \<and>
        int (totalGrains s) = max 200 (min 400 \<lfloor>totalMs s / 500\<rfloor>))"

section \<open>Concrete inputs\<close>

text \<open>The geometry of the repository's tests of the particle system (\<open>createTestGeometry\<close>).\<close>

definition test_geometry :: hourglass_geometry where
  "test_geometry = \<lparr>walls =
       [\<lparr>x1 = 50, y1 = 0, x2 = 100, y2 = 200\<rparr>,
        \<lparr>x1 = 100, y1 = 200, x2 = 50, y2 = 400\<rparr>,
        \<lparr>x1 = 350, y1 = 0, x2 = 300, y2 = 200\<rparr>,
        \<lparr>x1 = 300, y1 = 200, x2 = 350, y2 = 400\<rparr>],
     neckLeft = 180, neckRight = 220, neckTopY = 190, neckBottomY = 210,
     bottomFloorY = 390, topCeilingY = 10\<rparr>"

definition test_system :: particle_system where
  "test_system = setGeometry test_geometry new_system"

text \<open>A random sequence, and three sequences of calls.\<close>

definition half :: rng where
  "half = (\<lambda>_. 1 / 2)"

definition two_calls :: "call list" where
  "two_calls = [SetGeometry test_geometry, Init 60000 half]"


definition idle_calls :: "call list" where
  "idle_calls = [Init 60000 half, Update 0.016 1000 half, Explode half, Reset]"

definition frame_calls :: "call list" where
  "frame_calls = [Update 0.016 1000 half, Explode half, Update 0.016 1016 half]"

text \<open>A system with one grain at rest on the floor, for \<open>explode\<close>.\<close>

definition pile_system :: particle_system where
  "pile_system = test_system\<lparr>grains :=
     [\<lparr>pos_x = Fin 200, pos_y = Fin 387, vx = Fin 0, vy = Fin 0, radius = Fin 2.5, color = [],
       colorOffset = Fin 0, settled = True, active = True\<rparr>],
     totalGrains := 1, releasedCount := 1\<rparr>"

text \<open>A horizontal wall and a grain 1 px above it that falls onto it.\<close>

definition flat_wall :: line_segment where
  "flat_wall = \<lparr>x1 = - 10, y1 = 0, x2 = 10, y2 = 0\<rparr>"

definition falling_grain :: grain where
  "falling_grain = \<lparr>pos_x = Fin 0, pos_y = Fin (- 1), vx = Fin 3, vy = Fin 10, radius = Fin 2.5,
     color = [], colorOffset = Fin 0, settled = False, active = True\<rparr>"

section \<open>Facts about numbers\<close>

lemma Fin_minus [simp]: "Fin a - Fin b = Fin (a - b)"
  by (simp add: minus_jsnum_def)

lemma Fin_le [simp]: "Fin a \<le> Fin b \<longleftrightarrow> a \<le> b"
  by (auto simp: less_eq_jsnum_def)

lemma Fin_divide: "b \<noteq> 0 \<Longrightarrow> Fin a / Fin b = Fin (a / b)"
  by simp

lemma Math_min_Fin [simp]: "Math_min (Fin a) (Fin b) = Fin (min a b)"
  by (simp add: Math_min_def min_def)

lemma Math_max_Fin [simp]: "Math_max (Fin a) (Fin b) = Fin (max a b)"
  by (simp add: Math_max_def max_def)

lemma NegInf_less: "NegInf < v \<longleftrightarrow> v = PosInf \<or> (\<exists>r. v = Fin r)"
  by (cases v) simp_all

lemma not_less_NaN [simp]: "\<not> v < NaN" "\<not> NaN < v"
  by (cases v; simp)+

lemma less_Fin_Fin_trans: "Fin a \<le> Fin b \<Longrightarrow> Fin b < v \<Longrightarrow> Fin a < v"
  by (cases v) simp_all


text \<open>Rounding to a double.\<close>

lemma round_half_even_bounds:
  "\<lfloor>y\<rfloor> \<le> round_half_even y \<and> round_half_even y \<le> \<lfloor>y\<rfloor> + 1"
  by (simp add: round_half_even_def Let_def)


lemma round_half_even_nonpos:
  assumes "y \<le> 0"
  shows "round_half_even y \<le> 0"
proof (cases "y = of_int \<lfloor>y\<rfloor>")
  case True
  then have "round_half_even y = \<lfloor>y\<rfloor>"
    by (simp add: round_half_even_def)
  with assms show ?thesis by (simp add: floor_le_iff)
next
  case False
  then have "of_int \<lfloor>y\<rfloor> < y"
    using of_int_floor_le [of y] by linarith
  with assms have "\<lfloor>y\<rfloor> < 0"
    by linarith
  with round_half_even_bounds [of y] show ?thesis by linarith
qed

lemma powr_powi: "(2 :: real) powr of_int e = 2 powi e"
  by (simp add: powr_real_of_int power_int_def power_one_over inverse_eq_divide)

lemma floor_log_bounds:
  assumes "x \<noteq> 0"
  shows "2 powi \<lfloor>log 2 \<bar>x\<bar>\<rfloor> \<le> \<bar>x\<bar>" and "\<bar>x\<bar> < 2 powi (\<lfloor>log 2 \<bar>x\<bar>\<rfloor> + 1)"
proof -
  from assms have pos: "0 < \<bar>x\<bar>" by simp
  have le: "2 powr of_int k \<le> \<bar>x\<bar>" if "of_int k \<le> log 2 \<bar>x\<bar>" for k :: int
    using that pos by (simp add: le_log_iff)
  have less: "\<bar>x\<bar> < 2 powr of_int k" if "log 2 \<bar>x\<bar> < of_int k" for k :: int
    using that pos by (simp add: log_less_iff)
  have "2 powr of_int \<lfloor>log 2 \<bar>x\<bar>\<rfloor> \<le> \<bar>x\<bar>"
    by (rule le) (rule of_int_floor_le)
  then show "2 powi \<lfloor>log 2 \<bar>x\<bar>\<rfloor> \<le> \<bar>x\<bar>"
    by (simp only: powr_powi)
  have "log 2 \<bar>x\<bar> < of_int (\<lfloor>log 2 \<bar>x\<bar>\<rfloor> + 1)"
    by linarith
  then have "\<bar>x\<bar> < 2 powr of_int (\<lfloor>log 2 \<bar>x\<bar>\<rfloor> + 1)"
    by (rule less)
  then show "\<bar>x\<bar> < 2 powi (\<lfloor>log 2 \<bar>x\<bar>\<rfloor> + 1)"
    by (simp only: powr_powi)
qed


lemma expo_upper:
  assumes "x \<noteq> 0"
  shows "\<bar>x\<bar> < 2 powi (expo x + 1)"
proof -
  have "(2 :: real) powi (\<lfloor>log 2 \<bar>x\<bar>\<rfloor> + 1) \<le> 2 powi (expo x + 1)"
    by (intro power_int_increasing) (simp_all add: expo_def)
  with floor_log_bounds(2) [OF assms] show ?thesis by linarith
qed

lemma expo_lower:
  assumes "2 powi (- 1022) \<le> \<bar>x\<bar>"
  shows "2 powi expo x \<le> \<bar>x\<bar>"
proof -
  have "0 < (2 :: real) powi (- 1022)" by simp
  with assms have x: "x \<noteq> 0" by auto
  have "- 1022 \<le> \<lfloor>log 2 \<bar>x\<bar>\<rfloor>"
  proof (rule ccontr)
    assume "\<not> - 1022 \<le> \<lfloor>log 2 \<bar>x\<bar>\<rfloor>"
    then have "\<lfloor>log 2 \<bar>x\<bar>\<rfloor> + 1 \<le> - 1022" by linarith
    then have "(2 :: real) powi (\<lfloor>log 2 \<bar>x\<bar>\<rfloor> + 1) \<le> 2 powi (- 1022)"
      by (intro power_int_increasing) simp_all
    with floor_log_bounds(2) [OF x] assms show False by linarith
  qed
  then have "expo x = \<lfloor>log 2 \<bar>x\<bar>\<rfloor>"
    by (simp add: expo_def)
  with floor_log_bounds(1) [OF x] show ?thesis by simp
qed



lemma nearest_zero [simp]: "nearest 0 = 0"
  by (simp add: nearest_def)

lemma nearest_nonneg:
  assumes "0 \<le> x"
  shows "0 \<le> nearest x"
proof -
  let ?u = "(2 :: real) powi (expo x - 52)"
  have u: "0 < ?u" by simp
  with assms have "0 \<le> x / ?u" by simp
  then have "0 \<le> \<lfloor>x / ?u\<rfloor>" by simp
  with round_half_even_bounds [of "x / ?u"] have "0 \<le> round_half_even (x / ?u)"
    by linarith
  then have "0 \<le> ?u * of_int (round_half_even (x / ?u))"
    using u by (intro mult_nonneg_nonneg) simp_all
  then show ?thesis
    by (simp add: nearest_def)
qed

lemma nearest_nonpos:
  assumes "x \<le> 0"
  shows "nearest x \<le> 0"
proof -
  let ?u = "(2 :: real) powi (expo x - 52)"
  have u: "0 < ?u" by simp
  with assms have "x / ?u \<le> 0"
    by (simp add: divide_le_0_iff)
  then have "round_half_even (x / ?u) \<le> 0"
    by (rule round_half_even_nonpos)
  then have "?u * of_int (round_half_even (x / ?u)) \<le> 0"
    using u by (intro mult_nonneg_nonpos) simp_all
  then show ?thesis
    by (simp add: nearest_def)
qed

lemma ulp_le_half: "2 * (2 :: real) powi (e - 52) \<le> 2 powi e"
proof -
  have "2 * (2 :: real) powi (e - 52) = 2 powi (e - 52 + 1)"
    by (rule power_int_add_1' [symmetric]) simp
  also have "\<dots> \<le> 2 powi e"
    by (intro power_int_increasing) simp_all
  finally show ?thesis .
qed

lemma nearest_pos:
  assumes "2 powi (- 1022) \<le> x"
  shows "0 < nearest x"
proof -
  let ?u = "(2 :: real) powi (expo x - 52)"
  have u: "0 < ?u" by simp
  have "0 < (2 :: real) powi (- 1022)" by simp
  with assms have x: "0 < x" by linarith
  have "2 powi expo x \<le> x"
    using expo_lower [of x] assms x by simp
  with ulp_le_half [of "expo x"] u have "?u \<le> x" by linarith
  with u have "1 \<le> x / ?u"
    by (simp only: le_divide_eq_1_pos)
  then have "1 \<le> \<lfloor>x / ?u\<rfloor>"
    by (simp only: le_floor_iff of_int_1)
  with round_half_even_bounds [of "x / ?u"] have "0 < round_half_even (x / ?u)"
    by linarith
  then have "0 < ?u * of_int (round_half_even (x / ?u))"
    using u by (intro mult_pos_pos) simp_all
  with x show ?thesis
    by (simp add: nearest_def)
qed







lemma js_div_zero:
  "js_div (Fin a) (Fin 0) = (if a = 0 then NaN else if 0 < a then PosInf else NegInf)"
  by (simp add: js_div_def)

section \<open>The scan for the next grain and its release\<close>

lemma best_scan_Some_kept: "best \<noteq> None \<Longrightarrow> best_scan gs i best bestY \<noteq> None"
  by (induction gs arbitrary: i best bestY) auto

lemma best_scan_range:
  "best_scan gs i best bestY = Some k \<Longrightarrow>
     best = Some k \<or> (i \<le> k \<and> k < i + length gs \<and> \<not> active (gs ! (k - i)))"
proof (induction gs arbitrary: i best bestY)
  case Nil
  then show ?case by simp
next
  case (Cons g gs)
  show ?case
  proof (cases "\<not> active g \<and> pos_y g > bestY")
    case True
    with Cons.prems have "best_scan gs (Suc i) (Some i) (pos_y g) = Some k" by simp
    from Cons.IH [OF this] True show ?thesis
      by (auto simp: nth_Cons')
  next
    case False
    with Cons.prems have "best_scan gs (Suc i) best bestY = Some k" by auto
    from Cons.IH [OF this] show ?thesis
      by (auto simp: nth_Cons' Suc_diff_le)
  qed
qed

lemma best_scan_finds:
  "\<exists>g \<in> set gs. \<not> active g \<and> bestY < pos_y g \<Longrightarrow> best_scan gs i best bestY \<noteq> None"
proof (induction gs arbitrary: i best bestY)
  case Nil
  then show ?case by simp
next
  case (Cons g gs)
  show ?case
  proof (cases "\<not> active g \<and> pos_y g > bestY")
    case True
    then show ?thesis
      using best_scan_Some_kept [of "Some i" gs "Suc i" "pos_y g"] by simp
  next
    case False
    with Cons.prems have "\<exists>g \<in> set gs. \<not> active g \<and> bestY < pos_y g"
      by auto
    from Cons.IH [OF this] False show ?thesis
      by auto
  qed
qed

lemma filter_update_count:
  "i < length xs \<Longrightarrow> \<not> P (xs ! i) \<Longrightarrow> P y \<Longrightarrow>
     length (filter P (xs[i := y])) = Suc (length (filter P xs))"
proof (induction xs arbitrary: i)
  case Nil
  then show ?case by simp
next
  case (Cons a xs)
  then show ?case by (cases i) auto
qed

lemma map_update_same:
  "f y = f (xs ! i) \<Longrightarrow> map f (xs[i := y]) = map f xs"
proof (induction xs arbitrary: i)
  case Nil
  then show ?case by simp
next
  case (Cons a xs)
  then show ?case by (cases i) auto
qed

lemma exists_not_filtered:
  "length (filter P xs) < length xs \<Longrightarrow> \<exists>a \<in> set xs. \<not> P a"
  by (metis filter_True less_irrefl)

lemma releaseNextGrain_cases:
  assumes "geometry s = Some geo"
  shows "(best_scan (grains s) 0 None NegInf = None \<and>
          releaseNextGrain rnd k s = (s\<lparr>releasedCount := releasedCount s + 1\<rparr>, k)) \<or>
         (\<exists>i. best_scan (grains s) 0 None NegInf = Some i \<and> i < length (grains s) \<and>
              \<not> active (grains s ! i) \<and>
              releaseNextGrain rnd k s =
                (s\<lparr>grains := (grains s)[i := released_grain geo rnd k (grains s ! i)],
                   releasedCount := releasedCount s + 1\<rparr>, k + 3))"
proof (cases "best_scan (grains s) 0 None NegInf")
  case None
  then show ?thesis using assms by (simp add: releaseNextGrain_def)
next
  case (Some i)
  from best_scan_range [OF this] have "i < length (grains s)" "\<not> active (grains s ! i)"
    by auto
  then show ?thesis using assms Some
    by (simp add: releaseNextGrain_def released_grain_def Let_def)
qed

lemma releaseNextGrain_frame:
  assumes "geometry s = Some geo"
  shows "releasedCount (fst (releaseNextGrain rnd k s)) = Suc (releasedCount s) \<and>
         length (grains (fst (releaseNextGrain rnd k s))) = length (grains s) \<and>
         map colorOffset (grains (fst (releaseNextGrain rnd k s))) = map colorOffset (grains s) \<and>
         geometry (fst (releaseNextGrain rnd k s)) = geometry s \<and>
         totalGrains (fst (releaseNextGrain rnd k s)) = totalGrains s \<and>
         releaseInterval (fst (releaseNextGrain rnd k s)) = releaseInterval s \<and>
         totalMs (fst (releaseNextGrain rnd k s)) = totalMs s \<and>
         elapsedMs (fst (releaseNextGrain rnd k s)) = elapsedMs s"
  using releaseNextGrain_cases [OF assms, of rnd k]
  by (auto simp: released_grain_def map_update_same)

lemma releaseNextGrain_inactive:
  assumes "geometry s = Some geo"
    and "g \<in> set (grains (fst (releaseNextGrain rnd k s)))" and "\<not> active g"
  shows "g \<in> set (grains s)"
  using releaseNextGrain_cases [OF assms(1), of rnd k] assms(2,3)
  by (auto simp: released_grain_def dest!: subsetD [OF set_update_subset_insert])

lemma releaseNextGrain_active_count:
  assumes "geometry s = Some geo"
    and "\<exists>g \<in> set (grains s). \<not> active g \<and> NegInf < pos_y g"
  shows "length (filter active (grains (fst (releaseNextGrain rnd k s)))) =
         Suc (length (filter active (grains s)))"
proof -
  from best_scan_finds [OF assms(2)] have "best_scan (grains s) 0 None NegInf \<noteq> None" .
  with releaseNextGrain_cases [OF assms(1), of rnd k] show ?thesis
    by (auto simp: released_grain_def filter_update_count)
qed

lemma consistent_release:
  assumes geo: "geometry s = Some geo" and c: "consistent s"
    and lt: "releasedCount s < totalGrains s"
  shows "consistent (fst (releaseNextGrain rnd k s))"
proof -
  let ?s' = "fst (releaseNextGrain rnd k s)"
  from c lt have "length (filter active (grains s)) < length (grains s)"
    by (simp add: consistent_def)
  then obtain g where "g \<in> set (grains s)" "\<not> active g"
    using exists_not_filtered by blast
  with c have cand: "\<exists>g \<in> set (grains s). \<not> active g \<and> NegInf < pos_y g"
    by (auto simp: consistent_def list_all_iff)
  have "length (filter active (grains ?s')) = releasedCount ?s'"
    using releaseNextGrain_active_count [OF geo cand] releaseNextGrain_frame [OF geo, of rnd k] c
    by (simp add: consistent_def)
  moreover have "length (grains ?s') = totalGrains ?s'"
    using releaseNextGrain_frame [OF geo, of rnd k] c by (simp add: consistent_def)
  moreover have "list_all (\<lambda>g. active g \<or> NegInf < pos_y g) (grains ?s')"
    using releaseNextGrain_inactive [OF geo] c
    by (auto simp: consistent_def list_all_iff)
  ultimately show ?thesis
    by (simp add: consistent_def)
qed

lemma release_loop_returns:
  assumes "geometry s = Some geo" and "consistent s"
    and "\<not> Fin (real (totalGrains s)) < tgt"
  shows "\<exists>s'. release_loop tgt rnd k s = Some s' \<and> consistent s' \<and>
           geometry s' = geometry s \<and> totalGrains s' = totalGrains s \<and>
           releaseInterval s' = releaseInterval s \<and> totalMs s' = totalMs s \<and>
           elapsedMs s' = elapsedMs s \<and>
           map colorOffset (grains s') = map colorOffset (grains s) \<and>
           releasedCount s \<le> releasedCount s' \<and>
           \<not> Fin (real (releasedCount s')) < tgt \<and>
           (releasedCount s < releasedCount s' \<longrightarrow> Fin (real (releasedCount s') - 1) < tgt)"
  using assms
proof (induction "totalGrains s - releasedCount s" arbitrary: s k rule: less_induct)
  case less
  show ?case
  proof (cases "Fin (real (releasedCount s)) < tgt")
    case False
    then have "release_loop tgt rnd k s = Some s"
      by (subst release_loop.simps) simp
    with False less.prems show ?thesis by simp
  next
    case True
    let ?s1 = "fst (releaseNextGrain rnd k s)"
    let ?k1 = "snd (releaseNextGrain rnd k s)"
    have lt: "releasedCount s < totalGrains s"
    proof (rule ccontr)
      assume "\<not> releasedCount s < totalGrains s"
      then have "Fin (real (totalGrains s)) \<le> Fin (real (releasedCount s))" by simp
      from less_Fin_Fin_trans [OF this True] less.prems(3) show False by simp
    qed
    note fr = releaseNextGrain_frame [OF less.prems(1), of rnd k]
    have c1: "consistent ?s1"
      using consistent_release [OF less.prems(1,2) lt] .
    have g1: "geometry ?s1 = Some geo"
      using fr less.prems(1) by simp
    have m: "totalGrains ?s1 - releasedCount ?s1 < totalGrains s - releasedCount s"
      using fr lt by simp
    have b1: "\<not> Fin (real (totalGrains ?s1)) < tgt"
      using fr less.prems(3) by simp
    from less.hyps [OF m g1 c1 b1, of ?k1] obtain s' where
      s': "release_loop tgt rnd ?k1 ?s1 = Some s'" "consistent s'"
        "geometry s' = geometry ?s1" "totalGrains s' = totalGrains ?s1"
        "releaseInterval s' = releaseInterval ?s1" "totalMs s' = totalMs ?s1"
        "elapsedMs s' = elapsedMs ?s1"
        "map colorOffset (grains s') = map colorOffset (grains ?s1)"
        "releasedCount ?s1 \<le> releasedCount s'"
        "\<not> Fin (real (releasedCount s')) < tgt"
        "releasedCount ?s1 < releasedCount s' \<longrightarrow> Fin (real (releasedCount s') - 1) < tgt"
      by blast
    have loop: "release_loop tgt rnd k s = Some s'"
      using True s'(1) by (subst release_loop.simps) simp
    have last: "Fin (real (releasedCount s') - 1) < tgt"
    proof (cases "releasedCount ?s1 < releasedCount s'")
      case True
      with s'(11) show ?thesis by simp
    next
      case False
      with s'(9) fr have "real (releasedCount s') - 1 = real (releasedCount s)" by simp
      with True show ?thesis by simp
    qed
    show ?thesis
      using loop s' fr last by auto
  qed
qed

section \<open>What the physics step leaves alone\<close>

lemma physics_frame_refl: "physics_frame gs gs"
  by (simp add: physics_frame_def)

lemma physics_frame_length: "physics_frame gs gs' \<Longrightarrow> length gs' = length gs"
  by (auto simp: physics_frame_def dest: map_eq_imp_length_eq)

lemma physics_frame_active:
  "physics_frame gs gs' \<Longrightarrow> k < length gs \<Longrightarrow> active (gs' ! k) = active (gs ! k)"
  by (metis physics_frame_def physics_frame_length nth_map)

lemma physics_frame_step:
  assumes f: "physics_frame gs0 gs"
    and a: "k < length gs0 \<longrightarrow> active (gs0 ! k)"
    and g: "active g' = active (gs ! k)" "colorOffset g' = colorOffset (gs ! k)"
  shows "physics_frame gs0 (gs[k := g'])"
proof -
  have "map active (gs[k := g']) = map active gs" "map colorOffset (gs[k := g']) = map colorOffset gs"
    using g by (simp_all add: map_update_same)
  moreover have "\<forall>j < length gs0. \<not> active (gs0 ! j) \<longrightarrow> gs[k := g'] ! j = gs0 ! j"
    using f a by (auto simp: physics_frame_def) (metis nth_list_update_neq)
  ultimately show ?thesis
    using f by (simp add: physics_frame_def)
qed

lemma integrate_frame: "active (integrate dt g) = active g \<and> colorOffset (integrate dt g) = colorOffset g"
  by (simp add: integrate_def Let_def)

lemma collideWall_frame: "active (collideWall w g) = active g \<and> colorOffset (collideWall w g) = colorOffset g"
  by (simp add: collideWall_def Let_def)

lemma fold_collideWall_frame:
  "active (fold collideWall ws g) = active g \<and> colorOffset (fold collideWall ws g) = colorOffset g"
  by (induction ws arbitrary: g) (simp_all add: collideWall_frame)

lemma collideFloor_frame: "active (collideFloor geo g) = active g \<and> colorOffset (collideFloor geo g) = colorOffset g"
  by (simp add: collideFloor_def)

lemma collideCeiling_frame: "active (collideCeiling geo g) = active g \<and> colorOffset (collideCeiling geo g) = colorOffset g"
  by (simp add: collideCeiling_def)

lemma collideGrain_frame:
  assumes f: "physics_frame gs0 gs"
    and i: "i < length gs0 \<longrightarrow> active (gs0 ! i)"
    and j: "j < length gs0 \<longrightarrow> active (gs0 ! j)"
  shows "physics_frame gs0 (collideGrain i j gs)"
proof -
  have step: "physics_frame gs0 (xs[k := (xs ! k)\<lparr>pos_x := a, pos_y := b\<rparr>])"
    if "physics_frame gs0 xs" "k < length gs0 \<longrightarrow> active (gs0 ! k)" for xs k a b
    using that by (intro physics_frame_step) simp_all
  have stepv: "physics_frame gs0 (xs[k := (xs ! k)\<lparr>vx := a, vy := b\<rparr>])"
    if "physics_frame gs0 xs" "k < length gs0 \<longrightarrow> active (gs0 ! k)" for xs k a b
    using that by (intro physics_frame_step) simp_all
  show ?thesis
    unfolding collideGrain_def Let_def
    by (intro step stepv f i j | simp only: if_split | intro conjI impI)+
qed

lemma fold_collideGrain_frame:
  assumes "physics_frame gs0 gs"
    and "i < length gs0 \<longrightarrow> active (gs0 ! i)"
    and "\<forall>j \<in> set nearby. j < length gs0 \<longrightarrow> active (gs0 ! j)"
  shows "physics_frame gs0 (fold (collideGrain i) nearby gs)"
  using assms
proof (induction nearby arbitrary: gs)
  case Nil
  then show ?case by simp
next
  case (Cons j nearby)
  from Cons.prems have "physics_frame gs0 (collideGrain i j gs)"
    by (intro collideGrain_frame) simp_all
  with Cons show ?case by simp
qed

lemma settle_frame:
  assumes "physics_frame gs0 gs" and "i < length gs0 \<longrightarrow> active (gs0 ! i)"
  shows "physics_frame gs0 (settle geo nearby i gs)"
proof -
  have "physics_frame gs0 (gs[i := (gs ! i)\<lparr>settled := True, vx := a, vy := b\<rparr>])" for a b
    using assms by (intro physics_frame_step) simp_all
  with assms(1) show ?thesis
    by (simp add: settle_def Let_def)
qed

lemma updateGrain_frame:
  assumes f: "physics_frame gs0 gs" and i: "i < length gs0 \<longrightarrow> active (gs0 ! i)"
    and n: "\<forall>gs'. \<forall>j \<in> set (getNearby grid gs' i). j < length gs0 \<longrightarrow> active (gs0 ! j)"
  shows "physics_frame gs0 (updateGrain geo grid dt i gs)"
proof -
  let ?g4 = "collideCeiling geo (collideFloor geo (fold collideWall (walls geo) (integrate dt (gs ! i))))"
  have "active ?g4 = active (gs ! i)" "colorOffset ?g4 = colorOffset (gs ! i)"
    by (simp_all add: collideCeiling_frame collideFloor_frame fold_collideWall_frame integrate_frame)
  with f i have f1: "physics_frame gs0 (gs[i := ?g4])"
    by (intro physics_frame_step)
  let ?nearby = "getNearby grid (gs[i := ?g4]) i"
  from n have "\<forall>j \<in> set ?nearby. j < length gs0 \<longrightarrow> active (gs0 ! j)"
    by blast
  from fold_collideGrain_frame [OF f1 i this]
  have "physics_frame gs0 (fold (collideGrain i) ?nearby (gs[i := ?g4]))" .
  from settle_frame [OF this i] show ?thesis
    by (simp add: updateGrain_def Let_def)
qed

lemma cell_subset:
  "set (case grid key of None \<Rightarrow> [] | Some cell \<Rightarrow> filter P cell) \<subseteq> grid_indices grid"
  by (cases "grid key"; cases key) (auto simp: grid_indices_def)

lemma getNearby_subset: "set (getNearby grid gs i) \<subseteq> grid_indices grid"
proof -
  have conc: "set (concat (map (\<lambda>dx. concat (map (f dx) ys)) xs)) \<subseteq> A"
    if "\<And>dx dy. set (f dx dy) \<subseteq> A" for f :: "real \<Rightarrow> real \<Rightarrow> nat list" and xs ys A
    using that by auto
  show ?thesis
    unfolding getNearby_def Let_def by (rule conc) (rule cell_subset)
qed

lemma shift_indices:
  "{Suc i + k | k. k < length gs \<and> active (gs ! k)} \<subseteq>
   {i + k | k. k < length (g # gs) \<and> active ((g # gs) ! k)}"
proof
  fix x
  assume "x \<in> {Suc i + k | k. k < length gs \<and> active (gs ! k)}"
  then obtain k where "x = Suc i + k" "k < length gs" "active (gs ! k)"
    by blast
  then have "x = i + Suc k \<and> Suc k < length (g # gs) \<and> active ((g # gs) ! Suc k)"
    by simp
  then show "x \<in> {i + k | k. k < length (g # gs) \<and> active ((g # gs) ! k)}"
    by blast
qed

lemma grid_scan_indices:
  "grid_indices (grid_scan gs i grid) \<subseteq>
     grid_indices grid \<union> {i + k | k. k < length gs \<and> active (gs ! k)}"
proof (induction gs arbitrary: i grid)
  case Nil
  then show ?case by simp
next
  case (Cons g gs)
  show ?case
  proof (cases "active g")
    case False
    note shift_indices [of i gs g]
    moreover have "grid_scan (g # gs) i grid = grid_scan gs (Suc i) grid"
      using False by simp
    ultimately show ?thesis
      using Cons.IH [of "Suc i" grid] by (simp only:) blast
  next
    case True
    let ?key = "cell_of g"
    let ?grid1 = "if grid ?key = None then grid(?key \<mapsto> []) else grid"
    let ?grid2 = "?grid1(?key \<mapsto> the (?grid1 ?key) @ [i])"
    have g2: "grid_indices ?grid2 \<subseteq> grid_indices grid \<union> {i}"
      by (auto simp: grid_indices_def split: if_splits) metis
    note shift_indices [of i gs g]
    moreover have "i \<in> {i + k | k. k < length (g # gs) \<and> active ((g # gs) ! k)}"
    proof -
      have "i = i + 0 \<and> 0 < length (g # gs) \<and> active ((g # gs) ! 0)"
        using True by simp
      then show ?thesis by blast
    qed
    moreover have "grid_scan (g # gs) i grid = grid_scan gs (Suc i) ?grid2"
      using True by (simp add: Let_def)
    ultimately show ?thesis
      using Cons.IH [of "Suc i" ?grid2] g2 by (simp only:) blast
  qed
qed

lemma buildSpatialGrid_indices:
  "j \<in> grid_indices (buildSpatialGrid gs) \<Longrightarrow> j < length gs \<and> active (gs ! j)"
  using grid_scan_indices [of gs 0 Map.empty]
  by (auto simp: buildSpatialGrid_def grid_indices_def)

lemma updateGrains_fold_frame:
  assumes "physics_frame gs0 gs"
    and "\<forall>j \<in> grid_indices grid. j < length gs0 \<longrightarrow> active (gs0 ! j)"
  shows "physics_frame gs0
           (fold (\<lambda>i gs'. if \<not> active (gs' ! i) \<or> settled (gs' ! i) then gs'
                           else updateGrain geo grid dt i gs') is gs)"
  using assms
proof (induction "is" arbitrary: gs)
  case Nil
  then show ?case by simp
next
  case (Cons i "is")
  show ?case
  proof (cases "\<not> active (gs ! i) \<or> settled (gs ! i)")
    case True
    with Cons show ?thesis by simp
  next
    case False
    then have "i < length gs0 \<longrightarrow> active (gs0 ! i)"
      using physics_frame_active [OF Cons.prems(1)] by blast
    moreover have "\<forall>gs'. \<forall>j \<in> set (getNearby grid gs' i). j < length gs0 \<longrightarrow> active (gs0 ! j)"
      using Cons.prems(2) getNearby_subset by blast
    ultimately have "physics_frame gs0 (updateGrain geo grid dt i gs)"
      using Cons.prems(1) by (intro updateGrain_frame)
    from Cons.IH [OF this Cons.prems(2)] False show ?thesis by simp
  qed
qed

lemma updateGrains_frame:
  "physics_frame gs (updateGrains geo (buildSpatialGrid gs) dt gs)"
  unfolding updateGrains_def
  by (intro updateGrains_fold_frame physics_frame_refl) (simp add: buildSpatialGrid_indices)

section \<open>The update returns\<close>

lemma not_less_Math_min: "\<not> a < Math_min a b"
  by (cases a; cases b) (simp_all add: Math_min_def)

lemma filter_active_map:
  "map active gs' = map active gs \<Longrightarrow> length (filter active gs') = length (filter active gs)"
  for gs gs' :: "grain list"
proof -
  assume eq: "map active gs' = map active gs"
  have via_map: "length (filter active xs) = length (filter (\<lambda>b. b) (map active xs))"
    for xs :: "grain list"
    by (simp add: filter_map comp_def)
  show ?thesis
    by (simp only: via_map [of gs'] via_map [of gs] eq)
qed

lemma consistent_physics:
  assumes c: "consistent s" and f: "physics_frame (grains s) gs'"
  shows "consistent (s\<lparr>grains := gs'\<rparr>)"
proof -
  have len: "length gs' = length (grains s)"
    using f by (rule physics_frame_length)
  have "list_all (\<lambda>g. active g \<or> NegInf < pos_y g) gs'"
    unfolding list_all_length
  proof (intro allI impI)
    fix k assume k: "k < length gs'"
    show "active (gs' ! k) \<or> NegInf < pos_y (gs' ! k)"
    proof (cases "active (grains s ! k)")
      case True
      with physics_frame_active [OF f, of k] k len show ?thesis by simp
    next
      case False
      with f k len have "gs' ! k = grains s ! k"
        by (simp add: physics_frame_def)
      with c k len show ?thesis
        by (simp add: consistent_def list_all_length)
    qed
  qed
  moreover have "length (filter active gs') = length (filter active (grains s))"
    using f by (intro filter_active_map) (simp add: physics_frame_def)
  ultimately show ?thesis
    using c len by (simp add: consistent_def)
qed

lemma targetReleased_elapsedMs [simp]:
  "targetReleased (s\<lparr>elapsedMs := e'\<rparr>) e = targetReleased s e"
  by (simp add: targetReleased_def)

lemma consistent_elapsedMs [simp]: "consistent (s\<lparr>elapsedMs := e\<rparr>) = consistent s"
  by (simp add: consistent_def)

lemma update_result:
  assumes c: "consistent s"
  shows "\<exists>s'. update dt e rnd s = Some s' \<and> consistent s' \<and>
           geometry s' = geometry s \<and> totalGrains s' = totalGrains s \<and>
           releaseInterval s' = releaseInterval s \<and> totalMs s' = totalMs s \<and>
           map colorOffset (grains s') = map colorOffset (grains s) \<and>
           releasedCount s \<le> releasedCount s' \<and>
           (geometry s = None \<or> grains s = [] \<longrightarrow> s' = s) \<and>
           (geometry s \<noteq> None \<and> grains s \<noteq> [] \<longrightarrow>
              \<not> Fin (real (releasedCount s')) < targetReleased s e \<and>
              (releasedCount s < releasedCount s' \<longrightarrow>
                 Fin (real (releasedCount s') - 1) < targetReleased s e))"
proof (cases "geometry s = None \<or> grains s = []")
  case True
  then have "update dt e rnd s = Some s"
    by (auto simp: update_def split: option.splits)
  with True c show ?thesis by auto
next
  case False
  then obtain geo where geo: "geometry s = Some geo" and ne: "grains s \<noteq> []"
    by auto
  let ?s1 = "s\<lparr>elapsedMs := e\<rparr>"
  let ?tgt = "targetReleased s e"
  have "\<not> Fin (real (totalGrains ?s1)) < ?tgt"
    by (simp add: targetReleased_def not_less_Math_min)
  from release_loop_returns [of ?s1 geo ?tgt rnd 0, OF _ _ this] geo c
  obtain s2 where s2: "release_loop ?tgt rnd 0 ?s1 = Some s2" "consistent s2"
      "geometry s2 = geometry s" "totalGrains s2 = totalGrains s"
      "releaseInterval s2 = releaseInterval s" "totalMs s2 = totalMs s"
      "map colorOffset (grains s2) = map colorOffset (grains s)"
      "releasedCount s \<le> releasedCount s2"
      "\<not> Fin (real (releasedCount s2)) < ?tgt"
      "releasedCount s < releasedCount s2 \<longrightarrow> Fin (real (releasedCount s2) - 1) < ?tgt"
    by auto
  let ?gs' = "updateGrains geo (buildSpatialGrid (grains s2)) dt (grains s2)"
  let ?s' = "s2\<lparr>grains := ?gs'\<rparr>"
  have f: "physics_frame (grains s2) ?gs'"
    by (rule updateGrains_frame)
  have upd: "update dt e rnd s = Some ?s'"
    using geo ne s2(1) by (simp add: update_def)
  have "consistent ?s'"
    using s2(2) f by (rule consistent_physics)
  moreover have "map colorOffset (grains ?s') = map colorOffset (grains s)"
    using f s2(7) by (simp add: physics_frame_def)
  ultimately show ?thesis
    using upd s2 geo ne by simp
qed

section \<open>Grain count\<close>

lemma geometry_test_system: "geometry test_system = Some test_geometry"
  by (simp add: test_system_def setGeometry_def)

lemma init_totalGrains:
  "geometry s = Some geo \<Longrightarrow> totalGrains (init ms rnd s) = nat (min 400 (max 200 \<lfloor>ms / 500\<rfloor>))"
  by (simp add: init_def Let_def)

lemma length_init:
  "geometry s = Some geo \<Longrightarrow> length (grains (init ms rnd s)) = totalGrains (init ms rnd s)"
  by (simp add: init_def Let_def)

text \<open>
  C2. With geometry set, \<open>init\<close> makes the number of grains the floor of the duration
  over 500 ms clamped to the range from 200 to 400, and creates that many grains; 1000 ms
  gives 200 grains, 150000 ms gives 300 and 600000 ms gives 400.
\<close>

theorem init_totalGrains_clamp:
  assumes "geometry s = Some geo"
  shows "int (totalGrains (init ms rnd s)) = max 200 (min 400 \<lfloor>ms / 500\<rfloor>) \<and>
         200 \<le> totalGrains (init ms rnd s) \<and> totalGrains (init ms rnd s) \<le> 400 \<and>
         length (grains (init ms rnd s)) = totalGrains (init ms rnd s) \<and>
         totalGrains (init 1000 rnd s) = 200 \<and>
         totalGrains (init 150000 rnd s) = 300 \<and>
         totalGrains (init 600000 rnd s) = 400"
proof -
  have tot: "totalGrains (init m rnd s) = nat (min 400 (max 200 \<lfloor>m / 500\<rfloor>))" for m
    using assms by (rule init_totalGrains)
  have len: "length (grains (init ms rnd s)) = totalGrains (init ms rnd s)"
    using assms by (rule length_init)
  have "int (nat (min 400 (max 200 z))) = max 200 (min 400 z)" for z :: int
    by linarith
  moreover have "200 \<le> nat (min 400 (max 200 z)) \<and> nat (min 400 (max 200 z)) \<le> 400" for z :: int
    by linarith
  ultimately show ?thesis
    using len by (simp add: tot)
qed

theorem init_totalGrains_clamp_witness:
  "geometry test_system = Some test_geometry \<and>
   totalGrains (init 60000 half test_system) = 200 \<and>
   length (grains (init 60000 half test_system)) = 200"
  using init_totalGrains_clamp [of test_system test_geometry 60000 half]
  by (simp add: geometry_test_system)

section \<open>The invariant along sequences of calls\<close>

lemma wellformed_new_system: "wellformed new_system"
  by (simp add: wellformed_def consistent_def new_system_def)

lemma wellformed_setGeometry: "wellformed s \<Longrightarrow> wellformed (setGeometry geo s)"
  by (simp add: wellformed_def consistent_def setGeometry_def)

lemma wellformed_reset: "wellformed s \<Longrightarrow> wellformed (reset s)"
  by (simp add: wellformed_def consistent_def reset_def)

lemma init_grain_fields:
  "\<not> active (init_grain s geo rnd i) \<and> settled (init_grain s geo rnd i) \<and>
   pos_y (init_grain s geo rnd i) =
     Fin (min (neckTopY geo - 12 - real (i div 20) * (GRAIN_RADIUS * 2.2))
              (topCeilingY geo + (neckTopY geo - topCeilingY geo) * 0.9)
          + (rnd (4 * i + 1) - 0.5) * 2) \<and>
   colorOffset (init_grain s geo rnd i) = Fin ((rnd (4 * i + 3) - 0.5) * 2)"
  by (simp add: init_grain_def Let_def)

lemma init_grains:
  assumes "geometry s = Some geo"
  shows "grains (init ms rnd s) =
           map (init_grain (s\<lparr>grains := [], releasedCount := 0, lastReleaseTime := 0,
                  elapsedMs := 0, totalMs := ms,
                  totalGrains := nat (min 400 (max 200 \<lfloor>ms / 500\<rfloor>)),
                  releaseInterval :=
                    nearest (ms / real (nat (min 400 (max 200 \<lfloor>ms / 500\<rfloor>))))\<rparr>) geo rnd)
             [0..<nat (min 400 (max 200 \<lfloor>ms / 500\<rfloor>))]"
  using assms by (simp add: init_def Let_def)

lemma init_fields:
  assumes "geometry s = Some geo"
  shows "releasedCount (init ms rnd s) = 0 \<and> geometry (init ms rnd s) = Some geo \<and>
         totalMs (init ms rnd s) = ms \<and>
         releaseInterval (init ms rnd s) = nearest (ms / real (totalGrains (init ms rnd s)))"
  using assms by (simp add: init_def Let_def)

lemma init_no_geometry:
  "geometry s = None \<Longrightarrow>
     init ms rnd s = s\<lparr>grains := [], releasedCount := 0, lastReleaseTime := 0, elapsedMs := 0\<rparr>"
  by (simp add: init_def Let_def)

lemma wellformed_init:
  assumes "wellformed s"
  shows "wellformed (init ms rnd s)"
proof (cases "geometry s")
  case None
  with assms show ?thesis
    by (auto simp: init_no_geometry wellformed_def consistent_def)
next
  case (Some geo)
  have "filter active (grains (init ms rnd s)) = []"
    by (simp add: init_grains [OF Some] filter_empty_conv init_grain_fields)
  moreover have "list_all (\<lambda>g. active g \<or> NegInf < pos_y g) (grains (init ms rnd s))"
    by (simp add: init_grains [OF Some] list_all_iff init_grain_fields)
  moreover have "int (nat (min 400 (max 200 z))) = max 200 (min 400 z)" for z :: int
    by linarith
  ultimately show ?thesis
    using init_fields [OF Some, of ms rnd] length_init [OF Some, of ms rnd]
      init_totalGrains [OF Some, of ms rnd]
    by (simp add: wellformed_def consistent_def)
qed

lemma physics_frame_Cons:
  assumes "physics_frame gs gs'" and "active g' = active g" "colorOffset g' = colorOffset g"
    and "\<not> active g \<longrightarrow> g' = g"
  shows "physics_frame (g # gs) (g' # gs')"
  using assms by (auto simp: physics_frame_def nth_Cons split: nat.splits)

lemma explode_grains_frame: "physics_frame gs (explode_grains rnd k gs)"
proof (induction gs arbitrary: k)
  case Nil
  then show ?case by (simp add: physics_frame_def)
next
  case (Cons g gs)
  show ?case
    by (cases "settled g \<and> active g") (auto intro!: physics_frame_Cons Cons.IH)
qed

lemma wellformed_physics:
  assumes "wellformed s" and "physics_frame (grains s) gs'"
  shows "wellformed (s\<lparr>grains := gs'\<rparr>)"
proof -
  have "gs' = [] \<longleftrightarrow> grains s = []"
    using physics_frame_length [OF assms(2)] by auto
  with assms consistent_physics [OF _ assms(2)] show ?thesis
    by (simp add: wellformed_def)
qed

lemma wellformed_explode: "wellformed s \<Longrightarrow> wellformed (explode rnd s)"
  unfolding explode_def by (erule wellformed_physics) (rule explode_grains_frame)

lemma wellformed_update:
  assumes "wellformed s"
  shows "\<exists>s'. update dt e rnd s = Some s' \<and> wellformed s'"
proof -
  from assms have "consistent s" by (simp add: wellformed_def)
  from update_result [OF this, of dt e rnd] obtain s' where
    s': "update dt e rnd s = Some s'" "consistent s'" "geometry s' = geometry s"
      "totalGrains s' = totalGrains s" "releaseInterval s' = releaseInterval s"
      "totalMs s' = totalMs s" "map colorOffset (grains s') = map colorOffset (grains s)"
    by blast
  from s'(7) have "length (grains s') = length (grains s)"
    by (rule map_eq_imp_length_eq)
  then have "grains s' = [] \<longleftrightarrow> grains s = []" by auto
  with assms s' show ?thesis
    by (simp add: wellformed_def)
qed

lemma wellformed_do_call:
  "wellformed s \<Longrightarrow> \<exists>s'. do_call c s = Some s' \<and> wellformed s'"
  by (cases c)
    (simp_all add: wellformed_setGeometry wellformed_init wellformed_update wellformed_explode
       wellformed_reset)

lemma wellformed_run:
  "wellformed s \<Longrightarrow> \<exists>s'. run cs s = Some s' \<and> wellformed s'"
proof (induction cs arbitrary: s)
  case Nil
  then show ?case by simp
next
  case (Cons c cs)
  from wellformed_do_call [OF Cons.prems, of c] obtain s1 where
    "do_call c s = Some s1" "wellformed s1" by blast
  with Cons.IH [of s1] show ?case by simp
qed

section \<open>Released grains are the active grains\<close>

lemma run_wellformed:
  "\<exists>s. run cs new_system = Some s \<and> wellformed s"
  using wellformed_run [OF wellformed_new_system] .

lemma run_two_calls: "run two_calls new_system = Some (init 60000 half test_system)"
  by (simp add: two_calls_def test_system_def)

lemma candidate_exists:
  assumes w: "wellformed s" and lt: "releasedCount s < totalGrains s"
  shows "\<exists>geo. geometry s = Some geo" and "\<exists>g \<in> set (grains s). \<not> active g \<and> NegInf < pos_y g"
proof -
  from w lt have "grains s \<noteq> []"
    by (auto simp: wellformed_def consistent_def)
  with w show "\<exists>geo. geometry s = Some geo"
    by (auto simp: wellformed_def)
  from w lt have "length (filter active (grains s)) < length (grains s)"
    by (simp add: wellformed_def consistent_def)
  then obtain g where "g \<in> set (grains s)" "\<not> active g"
    using exists_not_filtered by blast
  with w show "\<exists>g \<in> set (grains s). \<not> active g \<and> NegInf < pos_y g"
    by (auto simp: wellformed_def consistent_def list_all_iff)
qed

lemma release_one:
  assumes w: "wellformed s" and lt: "releasedCount s < totalGrains s"
  shows "\<exists>i geo. geometry s = Some geo \<and> i < length (grains s) \<and> \<not> active (grains s ! i) \<and>
           active (released_grain geo rnd k (grains s ! i)) \<and>
           grains (fst (releaseNextGrain rnd k s)) =
             (grains s)[i := released_grain geo rnd k (grains s ! i)] \<and>
           releasedCount (fst (releaseNextGrain rnd k s)) = Suc (releasedCount s) \<and>
           length (filter active (grains (fst (releaseNextGrain rnd k s)))) =
             Suc (length (filter active (grains s)))"
proof -
  from candidate_exists [OF w lt] obtain geo where geo: "geometry s = Some geo"
    and cand: "\<exists>g \<in> set (grains s). \<not> active g \<and> NegInf < pos_y g"
    by blast
  from best_scan_finds [OF cand] have "best_scan (grains s) 0 None NegInf \<noteq> None" .
  with releaseNextGrain_cases [OF geo, of rnd k] obtain i where
    "i < length (grains s)" "\<not> active (grains s ! i)"
    "releaseNextGrain rnd k s =
       (s\<lparr>grains := (grains s)[i := released_grain geo rnd k (grains s ! i)],
          releasedCount := releasedCount s + 1\<rparr>, k + 3)"
    by auto
  moreover have "active (released_grain geo rnd k g)" for g
    by (simp add: released_grain_def)
  ultimately show ?thesis
    using geo releaseNextGrain_active_count [OF geo cand, of rnd k] by auto
qed

text \<open>
  C10. After any sequence of calls of \<open>setGeometry\<close>, \<open>init\<close>, \<open>update\<close>, \<open>explode\<close> and
  \<open>reset\<close> on a new particle system, every call returns, the number of active grains is
  \<open>releasedCount\<close>, and \<open>releasedCount\<close> is at most \<open>totalGrains\<close>. While \<open>releasedCount\<close> is
  less than \<open>totalGrains\<close>, a release finds an inactive grain, makes that one grain active
  and changes no other grain, so that the number of active grains and \<open>releasedCount\<close>
  both grow by one.
\<close>

theorem active_count_is_releasedCount:
  "(\<exists>s. run cs new_system = Some s) \<and>
   (\<forall>s. run cs new_system = Some s \<longrightarrow>
      length (filter active (grains s)) = releasedCount s \<and>
      releasedCount s \<le> totalGrains s \<and>
      (releasedCount s < totalGrains s \<longrightarrow>
         (\<exists>i geo. geometry s = Some geo \<and> i < length (grains s) \<and> \<not> active (grains s ! i) \<and>
            active (released_grain geo rnd k (grains s ! i)) \<and>
            grains (fst (releaseNextGrain rnd k s)) =
              (grains s)[i := released_grain geo rnd k (grains s ! i)] \<and>
            releasedCount (fst (releaseNextGrain rnd k s)) = Suc (releasedCount s) \<and>
            length (filter active (grains (fst (releaseNextGrain rnd k s)))) =
              Suc (length (filter active (grains s))))))"
proof (intro conjI allI impI)
  show "\<exists>s. run cs new_system = Some s"
    using run_wellformed [of cs] by blast
next
  fix s assume "run cs new_system = Some s"
  with run_wellformed [of cs] have w: "wellformed s" by auto
  then show "length (filter active (grains s)) = releasedCount s"
    by (simp add: wellformed_def consistent_def)
  from w have "length (filter active (grains s)) \<le> length (grains s)"
    by simp
  with w show "releasedCount s \<le> totalGrains s"
    by (simp add: wellformed_def consistent_def)
  assume "releasedCount s < totalGrains s"
  from release_one [OF w this]
  show "\<exists>i geo. geometry s = Some geo \<and> i < length (grains s) \<and> \<not> active (grains s ! i) \<and>
            active (released_grain geo rnd k (grains s ! i)) \<and>
            grains (fst (releaseNextGrain rnd k s)) =
              (grains s)[i := released_grain geo rnd k (grains s ! i)] \<and>
            releasedCount (fst (releaseNextGrain rnd k s)) = Suc (releasedCount s) \<and>
            length (filter active (grains (fst (releaseNextGrain rnd k s)))) =
              Suc (length (filter active (grains s)))" .
qed

theorem active_count_is_releasedCount_witness:
  "run two_calls new_system = Some (init 60000 half test_system) \<and>
   releasedCount (init 60000 half test_system) < totalGrains (init 60000 half test_system) \<and>
   length (filter active (grains (init 60000 half test_system))) = 0 \<and>
   length (filter active (grains (fst (releaseNextGrain half 0 (init 60000 half test_system))))) = 1"
proof -
  have t: "totalGrains (init 60000 half test_system) = 200"
    and r: "releasedCount (init 60000 half test_system) = 0"
    using init_totalGrains [OF geometry_test_system, of 60000 half]
      init_fields [OF geometry_test_system, of 60000 half] by simp_all
  from active_count_is_releasedCount [of two_calls half 0] run_two_calls t r
  show ?thesis by auto
qed

section \<open>Without geometry; colour offsets\<close>

lemma no_geometry_do_call:
  assumes w: "wellformed s" and n: "geometry s = None \<longrightarrow> s = new_system"
    and c: "do_call c s = Some s'"
  shows "geometry s' = None \<longrightarrow> s' = new_system"
proof (cases c)
  case (SetGeometry geo)
  with c show ?thesis by (auto simp: setGeometry_def)
next
  case (Init ms rnd)
  show ?thesis
  proof (cases "geometry s")
    case None
    with n c Init show ?thesis
      by (auto simp: init_no_geometry new_system_def)
  next
    case (Some geo)
    with c Init init_fields [OF Some, of ms rnd] show ?thesis by auto
  qed
next
  case (Update dt e rnd)
  from w have "consistent s" by (simp add: wellformed_def)
  from update_result [OF this, of dt e rnd] c Update n show ?thesis
    by auto
next
  case (Explode rnd)
  with c n show ?thesis
    by (auto simp: explode_def new_system_def)
next
  case Reset
  with c n show ?thesis
    by (auto simp: reset_def new_system_def)
qed

lemma no_geometry_run:
  assumes "wellformed s" and "geometry s = None \<longrightarrow> s = new_system"
    and "run cs s = Some s'"
  shows "geometry s' = None \<longrightarrow> s' = new_system"
  using assms
proof (induction cs arbitrary: s)
  case Nil
  then show ?case by simp
next
  case (Cons c cs)
  from wellformed_do_call [OF Cons.prems(1), of c] obtain s1 where
    s1: "do_call c s = Some s1" "wellformed s1" by blast
  from no_geometry_do_call [OF Cons.prems(1,2) s1(1)]
  have "geometry s1 = None \<longrightarrow> s1 = new_system" .
  from Cons.IH [OF s1(2) this] Cons.prems(3) s1(1) show ?case by simp
qed

text \<open>
  C4. As long as \<open>setGeometry\<close> has not been called, the particle system is in its initial
  state, and \<open>init\<close>, \<open>update\<close> and \<open>explode\<close> return without an error and leave the
  state as it was, with its grains, \<open>totalGrains\<close> and \<open>releasedCount\<close>; the width query
  answers 0.
\<close>

theorem no_geometry_no_op:
  assumes "run cs new_system = Some s" and "geometry s = None"
  shows "init ms rnd s = s \<and> update dt e rnd s = Some s \<and> explode rnd s = s \<and>
         getWidthAtY s y = Fin 0 \<and>
         grains s = [] \<and> totalGrains s = 0 \<and> releasedCount s = 0"
proof -
  from no_geometry_run [OF wellformed_new_system _ assms(1)] assms(2)
  have "s = new_system" by simp
  then show ?thesis
    by (simp add: new_system_def init_def update_def explode_def getWidthAtY_def)
qed

theorem no_geometry_no_op_witness:
  "run idle_calls new_system = Some new_system \<and> geometry new_system = None \<and>
   init 60000 half new_system = new_system \<and>
   update 0.016 1000 half new_system = Some new_system \<and>
   explode half new_system = new_system"
proof -
  have r: "run idle_calls new_system = Some new_system"
    by (simp add: idle_calls_def new_system_def init_def update_def explode_def reset_def)
  have g: "geometry new_system = None"
    by (simp add: new_system_def)
  from no_geometry_no_op [OF r g, of 60000 half "0.016" 1000] r g show ?thesis
    by simp
qed

lemma colorOffset_do_call:
  assumes "wellformed s" and "physics_call c"
  shows "\<exists>s'. do_call c s = Some s' \<and> wellformed s' \<and>
           map colorOffset (grains s') = map colorOffset (grains s)"
proof (cases c)
  case (Update dt e rnd)
  from assms(1) have "consistent s" by (simp add: wellformed_def)
  from update_result [OF this, of dt e rnd] wellformed_update [OF assms(1), of dt e rnd] Update
  show ?thesis by auto
next
  case (Explode rnd)
  have "map colorOffset (grains (explode rnd s)) = map colorOffset (grains s)"
    using explode_grains_frame [of "grains s" rnd 0]
    by (simp add: explode_def physics_frame_def)
  with wellformed_explode [OF assms(1), of rnd] Explode show ?thesis by simp
qed (use assms(2) in simp_all)

lemma colorOffset_run:
  assumes "wellformed s" and "list_all physics_call cs"
  shows "\<exists>s'. run cs s = Some s' \<and> map colorOffset (grains s') = map colorOffset (grains s)"
  using assms
proof (induction cs arbitrary: s)
  case Nil
  then show ?case by simp
next
  case (Cons c cs)
  from Cons.prems(2) have "physics_call c" "list_all physics_call cs" by simp_all
  from colorOffset_do_call [OF Cons.prems(1) this(1)] obtain s1 where
    s1: "do_call c s = Some s1" "wellformed s1"
      "map colorOffset (grains s1) = map colorOffset (grains s)" by blast
  from Cons.IH [OF s1(2) \<open>list_all physics_call cs\<close>] s1(1,3) show ?case by auto
qed

text \<open>
  C9. From any state that calls of the particle system have reached, a sequence of calls
  of \<open>update\<close> and \<open>explode\<close>, of any length, returns and leaves the \<open>colorOffset\<close> of every
  grain as it was.
\<close>

theorem colorOffset_unchanged:
  assumes "run cs0 new_system = Some s" and "list_all physics_call cs"
  shows "\<exists>s'. run cs s = Some s' \<and> map colorOffset (grains s') = map colorOffset (grains s)"
proof -
  from run_wellformed [of cs0] assms(1) have "wellformed s" by auto
  from colorOffset_run [OF this assms(2)] show ?thesis .
qed

theorem colorOffset_unchanged_witness:
  "run two_calls new_system = Some (init 60000 half test_system) \<and>
   list_all physics_call frame_calls \<and>
   map_option (map colorOffset \<circ> grains) (run frame_calls (init 60000 half test_system)) =
     Some (map colorOffset (grains (init 60000 half test_system)))"
proof -
  have p: "list_all physics_call frame_calls"
    by (simp add: frame_calls_def)
  from colorOffset_unchanged [OF run_two_calls p] run_two_calls p show ?thesis
    by auto
qed

section \<open>Release count and elapsed time\<close>



lemma targetReleased_zero_interval:
  assumes "releaseInterval s = 0"
  shows "targetReleased s e =
           (if e = 0 then NaN else if 0 < e then Fin (real (totalGrains s)) else NegInf)"
  using assms by (simp add: targetReleased_def js_div_zero Math_min_def)

lemma update_count_finite:
  assumes c: "consistent s" and g: "geometry s \<noteq> None" "grains s \<noteq> []"
    and t: "targetReleased s e = Fin (of_int z)"
  shows "\<exists>s'. update dt e rnd s = Some s' \<and>
           int (releasedCount s') = max (int (releasedCount s)) z"
proof -
  from update_result [OF c, of dt e rnd] g t obtain s' where
    s': "update dt e rnd s = Some s'" "releasedCount s \<le> releasedCount s'"
      "\<not> real (releasedCount s') < of_int z"
      "releasedCount s < releasedCount s' \<longrightarrow> real (releasedCount s') - 1 < of_int z"
    by auto
  from s'(3) have a: "z \<le> int (releasedCount s')"
    by linarith
  have b: "int (releasedCount s') \<le> z" if "releasedCount s < releasedCount s'"
  proof -
    from that s'(4) have "real_of_int (int (releasedCount s') - 1) < of_int z"
      by simp
    then have "int (releasedCount s') - 1 < z"
      by (simp only: of_int_less_iff)
    then show ?thesis by simp
  qed
  have "int (releasedCount s') = max (int (releasedCount s)) z"
    using a b s'(2) by (cases "releasedCount s < releasedCount s'") auto
  with s'(1) show ?thesis by blast
qed

lemma update_count_none:
  assumes c: "consistent s" and g: "geometry s \<noteq> None" "grains s \<noteq> []"
    and t: "targetReleased s e = NaN \<or> targetReleased s e = NegInf"
  shows "\<exists>s'. update dt e rnd s = Some s' \<and> releasedCount s' = releasedCount s"
proof -
  from update_result [OF c, of dt e rnd] g obtain s' where
    s': "update dt e rnd s = Some s'" "releasedCount s \<le> releasedCount s'"
      "releasedCount s < releasedCount s' \<longrightarrow>
         Fin (real (releasedCount s') - 1) < targetReleased s e"
    by auto
  from t s'(3) have "\<not> releasedCount s < releasedCount s'"
    by auto
  with s'(1,2) show ?thesis by auto
qed



lemma wellformed_grains:
  assumes "wellformed s" and "grains s \<noteq> []"
  shows "200 \<le> totalGrains s" and "totalGrains s \<le> 400"
    and "releaseInterval s = nearest (totalMs s / real (totalGrains s))"
    and "releasedCount s \<le> totalGrains s" and "geometry s \<noteq> None" and "consistent s"
proof -
  from assms have "int (totalGrains s) = max 200 (min 400 \<lfloor>totalMs s / 500\<rfloor>)"
    by (simp add: wellformed_def)
  then show "200 \<le> totalGrains s" and "totalGrains s \<le> 400" by linarith+
  from assms show "releaseInterval s = nearest (totalMs s / real (totalGrains s))"
    by (simp add: wellformed_def)
  have "length (filter active (grains s)) \<le> length (grains s)" by simp
  with assms(1) show "releasedCount s \<le> totalGrains s"
    by (simp add: wellformed_def consistent_def)
  from assms show "geometry s \<noteq> None" by (auto simp: wellformed_def)
  from assms show "consistent s" by (simp add: wellformed_def)
qed

text \<open>
  The stored interval is positive after \<open>init\<close> with a duration of one millisecond or
  more: it is zero for a positive duration only where the quotient underflows.
\<close>

lemma releaseInterval_positive:
  assumes "wellformed s" and "grains s \<noteq> []" and "1 \<le> totalMs s"
  shows "0 < releaseInterval s"
proof -
  note wg = wellformed_grains [OF assms(1,2)]
  have "(2 :: real) powi (- 1022) \<le> 2 powi (- 9)"
    by (intro power_int_increasing) simp_all
  also have "\<dots> \<le> 1 / 400" by simp
  also have "\<dots> \<le> 1 / real (totalGrains s)"
    using wg(1,2) by (intro divide_left_mono) simp_all
  also have "\<dots> \<le> totalMs s / real (totalGrains s)"
    using assms(3) by (intro divide_right_mono) simp_all
  finally have "0 < nearest (totalMs s / real (totalGrains s))"
    by (rule nearest_pos)
  with wg(3) show ?thesis by simp
qed



lemma wellformed_test_system: "wellformed test_system"
  unfolding test_system_def by (intro wellformed_setGeometry wellformed_new_system)

lemma init_test_system:
  "wellformed (init ms rnd test_system)"
  "geometry (init ms rnd test_system) \<noteq> None"
  "totalMs (init ms rnd test_system) = ms"
  "releasedCount (init ms rnd test_system) = 0"
  "totalGrains (init ms rnd test_system) = nat (min 400 (max 200 \<lfloor>ms / 500\<rfloor>))"
  "length (grains (init ms rnd test_system)) = nat (min 400 (max 200 \<lfloor>ms / 500\<rfloor>))"
  "releaseInterval (init ms rnd test_system) =
     nearest (ms / real (nat (min 400 (max 200 \<lfloor>ms / 500\<rfloor>))))"
  using wellformed_init [OF wellformed_test_system, of ms rnd]
    init_fields [OF geometry_test_system, of ms rnd]
    init_totalGrains [OF geometry_test_system, of ms rnd]
    length_init [OF geometry_test_system, of ms rnd]
  by simp_all











text \<open>
  C3, amended. \<open>init\<close> with a duration that is not positive makes 200 grains and sets the
  release interval to the duration over 200 as a double, which is zero or negative: there
  is no floor at a positive epsilon. After \<open>init(0)\<close> the division of \<open>update\<close> is a
  division by zero, which raises nothing: the quotient is \<open>Infinity\<close> for a positive
  elapsed time, and then all 200 grains are released in that one call; it is \<open>NaN\<close> or
  \<open>-Infinity\<close> otherwise, and then no grain is released.
\<close>

theorem init_nonpositive_duration:
  assumes "run cs new_system = Some s" and "geometry s = Some geo" and "ms \<le> 0"
  shows "totalGrains (init ms rnd s) = 200 \<and>
         releaseInterval (init ms rnd s) = nearest (ms / 200) \<and>
         releaseInterval (init ms rnd s) \<le> 0 \<and>
         (ms = 0 \<longrightarrow>
            Fin e / Fin (releaseInterval (init ms rnd s)) =
              (if e = 0 then NaN else if 0 < e then PosInf else NegInf) \<and>
            js_div (Fin e) (Fin (releaseInterval (init ms rnd s))) =
              (if e = 0 then NaN else if 0 < e then PosInf else NegInf) \<and>
            map_option releasedCount (update dt e rnd' (init ms rnd s)) =
              Some (if 0 < e then 200 else 0))"
proof -
  let ?s = "init ms rnd s"
  from run_wellformed [of cs] assms(1) have "wellformed s" by auto
  then have w: "wellformed ?s" by (rule wellformed_init)
  then have c: "consistent ?s" by (simp add: wellformed_def)
  have "\<lfloor>ms / 500\<rfloor> \<le> 0"
    using assms(3) by (simp add: floor_le_zero divide_le_0_iff)
  then have "nat (min 400 (max 200 \<lfloor>ms / 500\<rfloor>)) = 200" by linarith
  with init_totalGrains [OF assms(2), of ms rnd] have t: "totalGrains ?s = 200" by simp
  with init_fields [OF assms(2), of ms rnd]
  have i: "releaseInterval ?s = nearest (ms / 200)" and r: "releasedCount ?s = 0"
    and g: "geometry ?s \<noteq> None"
    by simp_all
  from length_init [OF assms(2), of ms rnd] t have n: "grains ?s \<noteq> []" by auto
  have zero: "map_option releasedCount (update dt e rnd' ?s) = Some (if 0 < e then 200 else 0)"
    if "ms = 0"
  proof (cases "0 < e")
    case True
    with that i t have "targetReleased ?s e = Fin (of_int 200)"
      by (simp add: targetReleased_zero_interval)
    from update_count_finite [OF c g n this, of dt rnd'] True r show ?thesis
      by auto
  next
    case False
    with that i have "targetReleased ?s e = NaN \<or> targetReleased ?s e = NegInf"
      by (simp add: targetReleased_zero_interval)
    from update_count_none [OF c g n this, of dt rnd'] False r show ?thesis
      by auto
  qed
  have quot: "Fin e / Fin (releaseInterval ?s) =
      (if e = 0 then NaN else if 0 < e then PosInf else NegInf)" if "ms = 0"
    using that i by simp
  have quot': "js_div (Fin e) (Fin (releaseInterval ?s)) =
      (if e = 0 then NaN else if 0 < e then PosInf else NegInf)" if "ms = 0"
    using that i by (simp add: js_div_zero)
  from assms(3) have "ms / 200 \<le> 0" by simp
  then have "nearest (ms / 200) \<le> 0" by (rule nearest_nonpos)
  then have "releaseInterval ?s \<le> 0"
    using i by simp
  with t i zero quot quot' show ?thesis by blast
qed

theorem init_nonpositive_duration_witness:
  "run two_calls new_system = Some (init 60000 half test_system) \<and>
   geometry (init 60000 half test_system) = Some test_geometry \<and> (0::real) \<le> 0 \<and>
   totalGrains (init 0 half (init 60000 half test_system)) = 200 \<and>
   releaseInterval (init 0 half (init 60000 half test_system)) = 0 \<and>
   map_option releasedCount (update 0.016 1 half (init 0 half (init 60000 half test_system))) =
     Some 200"
proof -
  have g: "geometry (init 60000 half test_system) = Some test_geometry"
    using init_fields [OF geometry_test_system, of 60000 half] by simp
  from init_nonpositive_duration [OF run_two_calls g, of 0 half 1 "0.016" half] run_two_calls g
  show ?thesis by simp
qed

text \<open>
  C3 as stated fails: after \<open>init(0)\<close> the release interval is 0, not a positive epsilon,
  and the division of \<open>update\<close> by it gives \<open>Infinity\<close>.
\<close>

theorem init_nonpositive_duration_counterexample:
  "releaseInterval (init 0 half test_system) = 0 \<and>
   \<not> 0 < releaseInterval (init 0 half test_system) \<and>
   Fin 1 / Fin (releaseInterval (init 0 half test_system)) = PosInf \<and>
   targetReleased (init 0 half test_system) 1 = Fin 200"
  by (simp add: init_test_system targetReleased_zero_interval)

section \<open>The reserve after init; the explosion\<close>

lemma half_range: "\<forall>n. 0 \<le> half n \<and> half n < 1"
  by (simp add: half_def)

text \<open>
  C8. With geometry set and every value of \<open>Math.random()\<close> in \<open>[0, 1)\<close>, every grain that
  \<open>init\<close> creates is inactive and settled, lies at or above the top of the neck
  (\<open>y \<le> neckTopY\<close>) and has a \<open>colorOffset\<close> between \<open>-1\<close> and \<open>1\<close>.
\<close>

theorem init_grains_reserve:
  assumes "geometry s = Some geo" and "\<forall>n. 0 \<le> rnd n \<and> rnd n < 1"
  shows "list_all (\<lambda>g. \<not> active g \<and> settled g \<and> pos_y g \<le> Fin (neckTopY geo) \<and>
                      Fin (- 1) \<le> colorOffset g \<and> colorOffset g \<le> Fin 1)
           (grains (init ms rnd s))"
proof -
  have "pos_y (init_grain s' geo rnd i) \<le> Fin (neckTopY geo) \<and>
        Fin (- 1) \<le> colorOffset (init_grain s' geo rnd i) \<and>
        colorOffset (init_grain s' geo rnd i) \<le> Fin 1" for s' i
  proof -
    let ?rowY = "neckTopY geo - 12 - real (i div 20) * (GRAIN_RADIUS * 2.2)"
    let ?cap = "topCeilingY geo + (neckTopY geo - topCeilingY geo) * 0.9"
    have "0 \<le> real (i div 20) * (GRAIN_RADIUS * 2.2)"
      by (simp add: GRAIN_RADIUS_def)
    moreover have "min ?rowY ?cap \<le> ?rowY"
      by (rule min.cobounded1)
    moreover have "rnd (4 * i + 1) < 1"
      using assms(2) by simp
    moreover have "m + (r - 0.5) * 2 \<le> top"
      if "0 \<le> a" "m \<le> top - 12 - a" "r < 1" for a m r top :: real
      using that by simp
    ultimately have "min ?rowY ?cap + (rnd (4 * i + 1) - 0.5) * 2 \<le> neckTopY geo"
      by blast
    moreover have "0 \<le> rnd (4 * i + 3)" "rnd (4 * i + 3) < 1"
      using assms(2) by simp_all
    ultimately show ?thesis
      by (simp add: init_grain_fields)
  qed
  then show ?thesis
    by (simp add: init_grains [OF assms(1)] list_all_iff init_grain_fields)
qed

theorem init_grains_reserve_witness:
  "geometry test_system = Some test_geometry \<and> (\<forall>n. 0 \<le> half n \<and> half n < 1) \<and>
   length (grains (init 60000 half test_system)) = 200 \<and>
   list_all (\<lambda>g. \<not> active g \<and> settled g \<and> pos_y g \<le> Fin (neckTopY test_geometry) \<and>
                Fin (- 1) \<le> colorOffset g \<and> colorOffset g \<le> Fin 1)
     (grains (init 60000 half test_system))"
  using init_grains_reserve [OF geometry_test_system half_range, of 60000]
  by (simp add: geometry_test_system half_range init_test_system)

lemma explode_grains_length [simp]: "length (explode_grains rnd k gs) = length gs"
  by (induction gs arbitrary: k) simp_all

lemma explode_grains_nth:
  "i < length gs \<Longrightarrow>
     explode_grains rnd k gs ! i =
       (if settled (gs ! i) \<and> active (gs ! i)
        then kicked rnd (k + 2 * length (filter (\<lambda>g. settled g \<and> active g) (take i gs))) (gs ! i)
        else gs ! i)"
proof (induction gs arbitrary: i k)
  case Nil
  then show ?case by simp
next
  case (Cons g gs)
  show ?case
  proof (cases i)
    case 0
    then show ?thesis by (simp add: kicked_def)
  next
    case (Suc j)
    with Cons.prems have "j < length gs" by simp
    from Cons.IH [OF this] Suc show ?thesis by simp
  qed
qed

lemma kicked_range:
  assumes "\<forall>n. 0 \<le> rnd n \<and> rnd n < 1"
  shows "\<exists>v u. kicked rnd m g = g\<lparr>settled := False, vy := Fin v, vx := Fin u\<rparr> \<and>
           - 500 < v \<and> v \<le> - 200 \<and> - 100 \<le> u \<and> u < 100"
proof -
  from assms have "0 \<le> rnd m" "rnd m < 1" "0 \<le> rnd (m + 1)" "rnd (m + 1) < 1"
    by simp_all
  then have "- 500 < - (200 + rnd m * 300) \<and> - (200 + rnd m * 300) \<le> - 200 \<and>
      - 100 \<le> (rnd (m + 1) - 0.5) * 200 \<and> (rnd (m + 1) - 0.5) * 200 < 100"
    by simp
  then show ?thesis
    unfolding kicked_def by blast
qed

text \<open>
  C7. With every value of \<open>Math.random()\<close> in \<open>[0, 1)\<close>, \<open>explode\<close> keeps the number and the
  order of the grains. A grain that is active and settled is no longer settled and gets a
  negative \<open>vy\<close> in the band from \<open>-500\<close> to \<open>-200\<close> and a \<open>vx\<close> in the band from \<open>-100\<close> to
  \<open>100\<close>, which is smaller in size; its other fields stay. Every other grain is unchanged.
  If a grain was active and settled, some grain has a negative \<open>vy\<close> after the call.
\<close>

theorem explode_kicks_pile:
  assumes "\<forall>n. 0 \<le> rnd n \<and> rnd n < 1"
  shows "length (grains (explode rnd s)) = length (grains s) \<and>
         (\<forall>i < length (grains s).
            if active (grains s ! i) \<and> settled (grains s ! i)
            then \<exists>v u. grains (explode rnd s) ! i =
                     (grains s ! i)\<lparr>settled := False, vy := Fin v, vx := Fin u\<rparr> \<and>
                   - 500 < v \<and> v \<le> - 200 \<and> - 100 \<le> u \<and> u < 100 \<and> \<bar>u\<bar> < \<bar>v\<bar>
            else grains (explode rnd s) ! i = grains s ! i) \<and>
         ((\<exists>g \<in> set (grains s). active g \<and> settled g) \<longrightarrow>
            (\<exists>g' \<in> set (grains (explode rnd s)). vy g' < Fin 0))"
proof (intro conjI allI impI)
  show len: "length (grains (explode rnd s)) = length (grains s)"
    by (simp add: explode_def)
  show kick: "if active (grains s ! i) \<and> settled (grains s ! i)
        then \<exists>v u. grains (explode rnd s) ! i =
                 (grains s ! i)\<lparr>settled := False, vy := Fin v, vx := Fin u\<rparr> \<and>
               - 500 < v \<and> v \<le> - 200 \<and> - 100 \<le> u \<and> u < 100 \<and> \<bar>u\<bar> < \<bar>v\<bar>
        else grains (explode rnd s) ! i = grains s ! i"
    if "i < length (grains s)" for i
  proof (cases "active (grains s ! i) \<and> settled (grains s ! i)")
    case True
    let ?m = "2 * length (filter (\<lambda>g. settled g \<and> active g) (take i (grains s)))"
    from kicked_range [OF assms, of ?m "grains s ! i"] obtain v u where
      k: "kicked rnd ?m (grains s ! i) = (grains s ! i)\<lparr>settled := False, vy := Fin v, vx := Fin u\<rparr>"
      and b: "- 500 < v" "v \<le> - 200" "- 100 \<le> u" "u < 100"
      by blast
    from b have "\<bar>u\<bar> < \<bar>v\<bar>" by linarith
    moreover have "grains (explode rnd s) ! i = kicked rnd ?m (grains s ! i)"
      using True that by (simp add: explode_def explode_grains_nth)
    ultimately have "grains (explode rnd s) ! i =
          (grains s ! i)\<lparr>settled := False, vy := Fin v, vx := Fin u\<rparr> \<and>
        - 500 < v \<and> v \<le> - 200 \<and> - 100 \<le> u \<and> u < 100 \<and> \<bar>u\<bar> < \<bar>v\<bar>"
      using k b by simp
    then have "\<exists>v u. grains (explode rnd s) ! i =
          (grains s ! i)\<lparr>settled := False, vy := Fin v, vx := Fin u\<rparr> \<and>
        - 500 < v \<and> v \<le> - 200 \<and> - 100 \<le> u \<and> u < 100 \<and> \<bar>u\<bar> < \<bar>v\<bar>"
      by blast
    with True show ?thesis by simp
  next
    case False
    with that show ?thesis
      by (auto simp: explode_def explode_grains_nth)
  qed
  assume "\<exists>g \<in> set (grains s). active g \<and> settled g"
  then obtain i where i: "i < length (grains s)" "active (grains s ! i)" "settled (grains s ! i)"
    by (auto simp: in_set_conv_nth)
  from kick [OF i(1)] i(2,3) obtain v where "vy (grains (explode rnd s) ! i) = Fin v" "v \<le> - 200"
    by auto
  then have "vy (grains (explode rnd s) ! i) < Fin 0" by simp
  moreover have "grains (explode rnd s) ! i \<in> set (grains (explode rnd s))"
    using i(1) len by simp
  ultimately show "\<exists>g' \<in> set (grains (explode rnd s)). vy g' < Fin 0"
    by blast
qed

theorem explode_kicks_pile_witness:
  "(\<forall>n. 0 \<le> half n \<and> half n < 1) \<and>
   active (grains pile_system ! 0) \<and> settled (grains pile_system ! 0) \<and>
   \<not> settled (grains (explode half pile_system) ! 0) \<and>
   vy (grains (explode half pile_system) ! 0) = Fin (- 350) \<and>
   vx (grains (explode half pile_system) ! 0) = Fin 0"
proof -
  have "0 < length (grains pile_system)"
    by (simp add: pile_system_def)
  with explode_kicks_pile [OF half_range, of pile_system]
  have "if active (grains pile_system ! 0) \<and> settled (grains pile_system ! 0)
        then \<exists>v u. grains (explode half pile_system) ! 0 =
                 (grains pile_system ! 0)\<lparr>settled := False, vy := Fin v, vx := Fin u\<rparr> \<and>
               - 500 < v \<and> v \<le> - 200 \<and> - 100 \<le> u \<and> u < 100 \<and> \<bar>u\<bar> < \<bar>v\<bar>
        else grains (explode half pile_system) ! 0 = grains pile_system ! 0"
    by blast
  moreover have "active (grains pile_system ! 0) \<and> settled (grains pile_system ! 0)"
    by (simp add: pile_system_def)
  ultimately have "\<not> settled (grains (explode half pile_system) ! 0)"
    by auto
  moreover have "vy (grains (explode half pile_system) ! 0) = Fin (- 350)"
    "vx (grains (explode half pile_system) ! 0) = Fin 0"
    by (simp_all add: pile_system_def explode_def half_def)
  ultimately show ?thesis
    by (simp add: half_range pile_system_def)
qed

section \<open>Width at a height\<close>

lemma bulb_width:
  assumes "0 < a" and "0 < h"
  shows "Fin nw + Fin (nw + 120 - nw) * Math_sqrt (Math_min (Fin 1) (Fin a / Fin h)) =
           Fin (nw + 120 * sqrt (min 1 (a / h)))"
proof -
  from assms have "\<not> min 1 (a / h) < 0" by (simp add: not_less)
  with assms show ?thesis by simp
qed

lemma getWidthAtY_top:
  assumes "geometry s = Some geo" and "y < neckTopY geo" and "topCeilingY geo < neckTopY geo"
  shows "getWidthAtY s y =
           Fin (neckRight geo - neckLeft geo +
                120 * sqrt (min 1 ((neckTopY geo - y) / (neckTopY geo - topCeilingY geo))))"
proof -
  from assms have "0 < neckTopY geo - y" "0 < neckTopY geo - topCeilingY geo" by simp_all
  from bulb_width [OF this, of "neckRight geo - neckLeft geo"] assms show ?thesis
    by (simp add: getWidthAtY_def Let_def)
qed

lemma getWidthAtY_bottom:
  assumes "geometry s = Some geo" and "neckTopY geo \<le> y" and "neckBottomY geo < y"
    and "neckBottomY geo < bottomFloorY geo"
  shows "getWidthAtY s y =
           Fin (neckRight geo - neckLeft geo +
                120 * sqrt (min 1 ((y - neckBottomY geo) / (bottomFloorY geo - neckBottomY geo))))"
proof -
  from assms have "0 < y - neckBottomY geo" "0 < bottomFloorY geo - neckBottomY geo" by simp_all
  from bulb_width [OF this, of "neckRight geo - neckLeft geo"] assms show ?thesis
    by (simp add: getWidthAtY_def Let_def)
qed

text \<open>
  C6, amended. The width at a height depends on the state only through the geometry. It is
  the neck width \<open>neckRight - neckLeft\<close> inside the neck band. In the top bulb, and in the
  bottom bulb, when the bulb has a positive height, it is the neck width plus 120 times
  \<open>sqrt(min(1, t))\<close>, where \<open>t\<close> is the distance from the neck over the height of the bulb.
  That factor lies between 0 and 1, so the width lies between the neck width and the neck
  width plus 120; there is no cosine in it.
\<close>

theorem getWidthAtY_shape:
  assumes "geometry s = Some geo"
  shows "(geometry s' = geometry s \<longrightarrow> getWidthAtY s' y = getWidthAtY s y) \<and>
         (neckTopY geo \<le> y \<and> y \<le> neckBottomY geo \<longrightarrow>
            getWidthAtY s y = Fin (neckRight geo - neckLeft geo)) \<and>
         (y < neckTopY geo \<and> topCeilingY geo < neckTopY geo \<longrightarrow>
            getWidthAtY s y =
              Fin (neckRight geo - neckLeft geo +
                   120 * sqrt (min 1 ((neckTopY geo - y) / (neckTopY geo - topCeilingY geo))))) \<and>
         (neckTopY geo \<le> y \<and> neckBottomY geo < y \<and> neckBottomY geo < bottomFloorY geo \<longrightarrow>
            getWidthAtY s y =
              Fin (neckRight geo - neckLeft geo +
                   120 * sqrt (min 1 ((y - neckBottomY geo) / (bottomFloorY geo - neckBottomY geo))))) \<and>
         (0 \<le> t \<longrightarrow> 0 \<le> sqrt (min 1 t) \<and> sqrt (min 1 t) \<le> 1)"
proof (intro conjI impI)
  show "getWidthAtY s' y = getWidthAtY s y" if "geometry s' = geometry s"
    using that by (simp add: getWidthAtY_def)
  show "getWidthAtY s y = Fin (neckRight geo - neckLeft geo)"
    if "neckTopY geo \<le> y \<and> y \<le> neckBottomY geo"
    using that assms by (simp add: getWidthAtY_def)
  show "getWidthAtY s y =
      Fin (neckRight geo - neckLeft geo +
           120 * sqrt (min 1 ((neckTopY geo - y) / (neckTopY geo - topCeilingY geo))))"
    if "y < neckTopY geo \<and> topCeilingY geo < neckTopY geo"
    using that by (intro getWidthAtY_top [OF assms]) simp_all
  show "getWidthAtY s y =
      Fin (neckRight geo - neckLeft geo +
           120 * sqrt (min 1 ((y - neckBottomY geo) / (bottomFloorY geo - neckBottomY geo))))"
    if "neckTopY geo \<le> y \<and> neckBottomY geo < y \<and> neckBottomY geo < bottomFloorY geo"
    using that by (intro getWidthAtY_bottom [OF assms]) simp_all
  show "0 \<le> sqrt (min 1 t)" if "0 \<le> t"
    using that by simp
  show "sqrt (min 1 t) \<le> 1" if "0 \<le> t"
    by simp
qed

theorem getWidthAtY_shape_witness:
  "geometry test_system = Some test_geometry \<and>
   getWidthAtY test_system 200 = Fin 40 \<and>
   getWidthAtY test_system 10 = Fin 160 \<and>
   getWidthAtY test_system 255 = Fin 100"
proof -
  have "sqrt (1 / 4) = 1 / 2"
    using real_sqrt_abs [of "1 / 2"] by (simp add: power2_eq_square)
  with getWidthAtY_shape [OF geometry_test_system, of test_system 200]
    getWidthAtY_shape [OF geometry_test_system, of test_system 10]
    getWidthAtY_shape [OF geometry_test_system, of test_system 255]
  show ?thesis
    by (simp add: geometry_test_system test_geometry_def)
qed

text \<open>
  C6 as stated fails in the bulbs. In the test geometry the top bulb is 180 high, so at
  \<open>y = 130\<close> the distance from the neck is \<open>t = 1/3\<close>. The cosine ease of \<open>1/3\<close> is \<open>1/4\<close>,
  whose square root \<open>1/2\<close> would give the width 100; the code returns
  \<open>40 + 120 * sqrt(1/3)\<close>.
\<close>

theorem getWidthAtY_shape_counterexample:
  "getWidthAtY test_system 130 = Fin (40 + 120 * sqrt (1 / 3)) \<and>
   cosine_ease (1 / 3) = 1 / 4 \<and>
   getWidthAtY test_system 130 \<noteq> Fin (40 + 120 * sqrt (cosine_ease (1 / 3)))"
proof -
  have w: "getWidthAtY test_system 130 = Fin (40 + 120 * sqrt (1 / 3))"
    using getWidthAtY_top [OF geometry_test_system, of 130]
    by (simp add: test_geometry_def)
  have c: "cosine_ease (1 / 3) = 1 / 4"
    by (simp add: cosine_ease_def cos_60)
  have "sqrt (1 / 3) \<noteq> sqrt (1 / 4)"
    by simp
  with w c show ?thesis by simp
qed

section \<open>Wall collision\<close>

lemma collideWall_finite:
  assumes fin: "pos_x g = Fin px" "pos_y g = Fin py" "vx g = Fin u" "vy g = Fin v"
      "radius g = Fin r"
    and len: "len2 = (x2 w - x1 w) * (x2 w - x1 w) + (y2 w - y1 w) * (y2 w - y1 w)" "len2 \<noteq> 0"
    and t: "t = max 0 (min 1 (((px - x1 w) * (x2 w - x1 w) + (py - y1 w) * (y2 w - y1 w)) / len2))"
    and c: "cx = x1 w + t * (x2 w - x1 w)" "cy = y1 w + t * (y2 w - y1 w)"
    and d: "d = sqrt ((px - cx) * (px - cx) + (py - cy) * (py - cy))" "d < r"
    and n: "nx = (if 0 < d then (px - cx) / d else 0)" "ny = (if 0 < d then (py - cy) / d else - 1)"
  shows "collideWall w g =
           g\<lparr>pos_x := Fin (cx + nx * r), pos_y := Fin (cy + ny * r),
             vx := Fin (if u * nx + v * ny < 0 then u - 2 * (u * nx + v * ny) * nx * DAMPING else u),
             vy := Fin (if u * nx + v * ny < 0 then v - 2 * (u * nx + v * ny) * ny * DAMPING else v)\<rparr>"
proof -
  have nn: "\<not> (px - cx) * (px - cx) + (py - cy) * (py - cy) < 0"
    by (simp add: not_less)
  have sq: "sqrt ((px - cx) * (px - cx) + (py - cy) * (py - cy)) = d"
    using d(1) by simp
  have closest: "Fin (x1 w) + Math_max (Fin 0) (Math_min (Fin 1)
        (((pos_x g - Fin (x1 w)) * Fin (x2 w - x1 w) + (pos_y g - Fin (y1 w)) * Fin (y2 w - y1 w))
           / Fin len2)) * Fin (x2 w - x1 w) = Fin cx"
      "Fin (y1 w) + Math_max (Fin 0) (Math_min (Fin 1)
        (((pos_x g - Fin (x1 w)) * Fin (x2 w - x1 w) + (pos_y g - Fin (y1 w)) * Fin (y2 w - y1 w))
           / Fin len2)) * Fin (y2 w - y1 w) = Fin cy"
    using fin len(2) by (simp_all add: t c)
  have dist: "Math_sqrt ((pos_x g - Fin cx) * (pos_x g - Fin cx) +
        (pos_y g - Fin cy) * (pos_y g - Fin cy)) = Fin d"
    using nn by (simp add: fin sq)
  have nxy: "(if Fin d > Fin 0 then (pos_x g - Fin cx) / Fin d else Fin 0) = Fin nx"
    "(if Fin d > Fin 0 then (pos_y g - Fin cy) / Fin d else Fin (- 1)) = Fin ny"
    using n by (simp_all add: fin)
  have "collideWall w g =
      (let g1 = g\<lparr>pos_x := Fin cx + Fin nx * radius g, pos_y := Fin cy + Fin ny * radius g\<rparr>;
           dot = vx g1 * Fin nx + vy g1 * Fin ny
       in if dot < Fin 0
          then g1\<lparr>vx := vx g1 - Fin 2 * dot * Fin nx * Fin DAMPING,
                  vy := vy g1 - Fin 2 * dot * Fin ny * Fin DAMPING\<rparr>
          else g1)"
    unfolding collideWall_def Let_def len(1) [symmetric] closest dist nxy
    using len(2) d(2) by (simp only: fin less_jsnum.simps if_True if_False)
  then show ?thesis
    by (simp add: fin Let_def)
qed

lemma contact_normal_unit:
  assumes "d = sqrt (a * a + b * b)"
    and "nx = (if 0 < d then a / d else 0)" "ny = (if 0 < d then b / d else - 1)"
  shows "nx * nx + ny * ny = 1"
proof (cases "0 < d")
  case True
  have "0 \<le> a * a + b * b" by simp
  then have "d * d = a * a + b * b"
    unfolding assms(1) by (simp only: real_sqrt_mult_self abs_of_nonneg)
  moreover have "nx * nx + ny * ny = (a * a + b * b) / (d * d)"
    using True assms(2,3) by (simp add: add_divide_distrib)
  ultimately have "nx * nx + ny * ny = (d * d) / (d * d)"
    by (simp only:)
  with True show ?thesis by simp
next
  case False
  with assms(2,3) show ?thesis by simp
qed

text \<open>
  C5. What \<open>_collideWall\<close> does with a grain of finite position, velocity and radius and a
  wall of positive length whose closest point \<open>(cx, cy)\<close> is nearer to the centre than the
  radius, where \<open>(nx, ny)\<close> is the contact normal. The centre is moved to the distance
  \<open>radius\<close> from the closest point along the normal, and the velocity component along the
  wall is unchanged. The component along the normal, when it points into the wall (is
  negative), is multiplied by \<open>1 - 2 * DAMPING = 0.4\<close>: it is made smaller and keeps its
  sign, so the velocity still points into the wall and is not reflected. A grain that
  moves away from the wall keeps its velocity.
\<close>

theorem collideWall_contact:
  assumes "pos_x g = Fin px" "pos_y g = Fin py" "vx g = Fin u" "vy g = Fin v" "radius g = Fin r"
    and "len2 = (x2 w - x1 w)\<^sup>2 + (y2 w - y1 w)\<^sup>2" "len2 \<noteq> 0"
    and "t = max 0 (min 1 (((px - x1 w) * (x2 w - x1 w) + (py - y1 w) * (y2 w - y1 w)) / len2))"
    and "cx = x1 w + t * (x2 w - x1 w)" "cy = y1 w + t * (y2 w - y1 w)"
    and "d = sqrt ((px - cx)\<^sup>2 + (py - cy)\<^sup>2)" "d < r"
    and "nx = (if 0 < d then (px - cx) / d else 0)" "ny = (if 0 < d then (py - cy) / d else - 1)"
  shows "\<exists>px' py' u' v'.
           collideWall w g = g\<lparr>pos_x := Fin px', pos_y := Fin py', vx := Fin u', vy := Fin v'\<rparr> \<and>
           px' = cx + nx * r \<and> py' = cy + ny * r \<and>
           sqrt ((px' - cx)\<^sup>2 + (py' - cy)\<^sup>2) = r \<and>
           u' * ny - v' * nx = u * ny - v * nx \<and>
           u' * nx + v' * ny =
             (if u * nx + v * ny < 0 then (1 - 2 * DAMPING) * (u * nx + v * ny)
              else u * nx + v * ny)"
proof -
  let ?dot = "u * nx + v * ny"
  let ?u' = "if ?dot < 0 then u - 2 * ?dot * nx * DAMPING else u"
  let ?v' = "if ?dot < 0 then v - 2 * ?dot * ny * DAMPING else v"
  have len: "len2 = (x2 w - x1 w) * (x2 w - x1 w) + (y2 w - y1 w) * (y2 w - y1 w)"
    by (simp only: assms(6) power2_eq_square)
  have d: "d = sqrt ((px - cx) * (px - cx) + (py - cy) * (py - cy))"
    by (simp only: assms(11) power2_eq_square)
  have res: "collideWall w g =
      g\<lparr>pos_x := Fin (cx + nx * r), pos_y := Fin (cy + ny * r), vx := Fin ?u', vy := Fin ?v'\<rparr>"
    by (rule collideWall_finite [OF assms(1-5) len assms(7-10) d assms(12-14)])
  have unit: "nx * nx + ny * ny = 1"
    by (rule contact_normal_unit [OF d assms(13,14)])
  have "0 \<le> d"
    unfolding d by (rule real_sqrt_ge_zero) simp
  with assms(12) have r: "0 < r" by simp
  have "(cx + nx * r - cx)\<^sup>2 + (cy + ny * r - cy)\<^sup>2 = (nx * nx + ny * ny) * r\<^sup>2"
    by (simp add: power2_eq_square algebra_simps)
  also have "\<dots> = r\<^sup>2"
    by (simp only: unit mult_1)
  finally have push: "sqrt ((cx + nx * r - cx)\<^sup>2 + (cy + ny * r - cy)\<^sup>2) = r"
    using r by simp
  have tang: "?u' * ny - ?v' * nx = u * ny - v * nx"
  proof (cases "?dot < 0")
    case True
    then show ?thesis by (simp add: algebra_simps)
  next
    case False
    then show ?thesis by simp
  qed
  have norm: "?u' * nx + ?v' * ny = (if ?dot < 0 then (1 - 2 * DAMPING) * ?dot else ?dot)"
  proof (cases "?dot < 0")
    case True
    have "(u - 2 * ?dot * nx * DAMPING) * nx + (v - 2 * ?dot * ny * DAMPING) * ny =
          ?dot - 2 * DAMPING * ?dot * (nx * nx + ny * ny)"
      by (simp add: algebra_simps)
    also have "\<dots> = (1 - 2 * DAMPING) * ?dot"
      by (simp only: unit) (simp add: algebra_simps)
    finally show ?thesis using True by simp
  next
    case False
    then show ?thesis by simp
  qed
  from res push tang norm show ?thesis by blast
qed

text \<open>
  The grain falls onto the wall with the velocity \<open>(3, 10)\<close>. A reflection damped by
  \<open>DAMPING = 0.3\<close> would leave it with \<open>vy = -3\<close>; the code leaves it with \<open>vy = 4\<close>.
\<close>

theorem collideWall_contact_witness:
  "pos_x falling_grain = Fin 0 \<and> pos_y falling_grain = Fin (- 1) \<and>
   vx falling_grain = Fin 3 \<and> vy falling_grain = Fin 10 \<and> radius falling_grain = Fin 2.5 \<and>
   (400 :: real) = (x2 flat_wall - x1 flat_wall)\<^sup>2 + (y2 flat_wall - y1 flat_wall)\<^sup>2 \<and>
   (1 :: real) = sqrt ((0 - 0)\<^sup>2 + (- 1 - 0)\<^sup>2) \<and> (1 :: real) < 2.5 \<and>
   collideWall flat_wall falling_grain =
     falling_grain\<lparr>pos_x := Fin 0, pos_y := Fin (- 2.5), vx := Fin 3, vy := Fin 4\<rparr>"
proof -
  have f: "pos_x falling_grain = Fin 0" "pos_y falling_grain = Fin (- 1)"
    "vx falling_grain = Fin 3" "vy falling_grain = Fin 10" "radius falling_grain = Fin 2.5"
    by (simp_all add: falling_grain_def)
  have l: "(400 :: real) = (x2 flat_wall - x1 flat_wall)\<^sup>2 + (y2 flat_wall - y1 flat_wall)\<^sup>2"
    "(400 :: real) \<noteq> 0"
    by (simp_all add: flat_wall_def)
  have t: "(1 / 2 :: real) =
      max 0 (min 1 (((0 - x1 flat_wall) * (x2 flat_wall - x1 flat_wall) +
                     (- 1 - y1 flat_wall) * (y2 flat_wall - y1 flat_wall)) / 400))"
    by (simp add: flat_wall_def)
  have c: "(0 :: real) = x1 flat_wall + 1 / 2 * (x2 flat_wall - x1 flat_wall)"
    "(0 :: real) = y1 flat_wall + 1 / 2 * (y2 flat_wall - y1 flat_wall)"
    by (simp_all add: flat_wall_def)
  have d: "(1 :: real) = sqrt ((0 - 0)\<^sup>2 + (- 1 - 0)\<^sup>2)" "(1 :: real) < 2.5"
    by simp_all
  have n: "(0 :: real) = (if 0 < (1 :: real) then (0 - 0) / 1 else 0)"
    "(- 1 :: real) = (if 0 < (1 :: real) then (- 1 - 0) / 1 else - 1)"
    by simp_all
  from collideWall_contact [OF f l t c d n] obtain px' py' u' v' where
    r: "collideWall flat_wall falling_grain =
          falling_grain\<lparr>pos_x := Fin px', pos_y := Fin py', vx := Fin u', vy := Fin v'\<rparr>"
    and p: "px' = 0 + 0 * 2.5" "py' = 0 + - 1 * 2.5"
    and v: "u' * - 1 - v' * 0 = 3 * - 1 - 10 * 0"
      "u' * 0 + v' * - 1 =
         (if 3 * 0 + 10 * - 1 < (0 :: real) then (1 - 2 * DAMPING) * (3 * 0 + 10 * - 1)
          else 3 * 0 + 10 * - 1)"
    by blast
  from v have "u' = 3" "v' = 4"
    by (simp_all add: DAMPING_def)
  with r p f l d show ?thesis by simp
qed

end
